theory Spec2Isabelle
  imports Main "HOL-Library.Word"
begin

section \<open>Data model of plugins/snapshot/pruning.go\<close>

text \<open>
  \<open>milestone.Index\<close> is a \<open>uint32\<close>: comparisons are unsigned and \<open>+\<close>, \<open>-\<close> wrap
  around. A \<open>hornet.MessageID\<close> is a byte string; its \<open>MapKey()\<close> is the same bytes as a
  Go string, so one type stands for both.
\<close>

type_synonym index = "32 word"
type_synonym MessageID = string

text \<open>
  The part of a \<open>tangle.Message\<close> that \<open>pruneMessages\<close> reads: the two parents and the
  index of an indexation payload (\<open>CheckIfIndexation\<close> yields nil when there is none).
  The message's own identifier is the key under which the store holds it.
\<close>

record Message =
  Parent1MessageID :: MessageID
  Parent2MessageID :: MessageID
  Indexation :: "string option"

record Metadata =
  IsConfirmed :: bool

record SnapshotInfo =
  SnapshotIndex :: index
  EntryPointIndex :: index
  PruningIndex :: index

text \<open>
  The sentinel errors of package snapshot which \<open>pruneDatabase\<close> returns
  (\<open>errors.Wrapf\<close> only decorates them with a message; the cause is the sentinel), and
  any other error value handed back by a collaborator.
\<close>

datatype error =
    ErrNotEnoughHistory
  | ErrNoPruningNeeded
  | ErrPruningAborted
  | ErrOther string

text \<open>A call either returns its Go \<open>error\<close> (\<open>None\<close> is nil) or panics.\<close>

datatype outcome = Return "error option" | Panic string

text \<open>
  The calls that leave the function, in the order they were made: the log a run appends
  to. It is what the statements about "what a run did" are read from.
\<close>

datatype event =
    EvSetIsPruning bool
  | EvResetSolidEntryPoints
  | EvStoreSolidEntryPoints "(MessageID \<times> index) list"
  | EvSetSnapshotInfo SnapshotInfo
  | EvPruneMessages "MessageID list"
  | EvDeleteUnconfirmedMessages index
  | EvPruneMilestoneIndex index
  | EvDeleteMilestone index
  | EvPruningMilestoneIndexChanged index
  | EvRunGarbageCollection

text \<open>
  The node's state as far as this file touches it: the persisted retention state, the
  \<open>isPruning\<close> flag, the solid entry points in memory and as last stored, the message
  and metadata stores, the child and indexation indices, the unconfirmed-message index
  per milestone, the milestones (index to milestone message), the ledger diffs, and the
  log of calls.
\<close>

record world =
  snapshotInfo :: "SnapshotInfo option"
  isPruning :: bool
  solidEntryPoints :: "(MessageID \<times> index) list"
  storedSolidEntryPoints :: "(MessageID \<times> index) list"
  messages :: "MessageID \<rightharpoonup> Message"
  metadata :: "MessageID \<rightharpoonup> Metadata"
  children :: "(MessageID \<times> MessageID) set"
  indexations :: "(string \<times> MessageID) set"
  unconfirmedMessages :: "index \<Rightarrow> MessageID list"
  milestones :: "index \<rightharpoonup> MessageID"
  ledgerDiffs :: "index set"
  trace :: "event list"

text \<open>
  What the file takes from outside and cannot be read off the state:
  \<^item> the constant \<open>SolidEntryPointCheckThresholdPast\<close>, declared elsewhere in the package;
  \<^item> \<open>forEachSolidEntryPoint\<close>: for a state, a target index and the abort signal, the
    solid entry points it hands to its consumer, in order, and the error it returns;
  \<^item> \<open>dag.TraverseParents\<close> as \<open>pruneDatabase\<close> calls it (condition always true, solid
    entry points traversed, no abort signal): for a state and a start message, the
    messages it hands to the consumer, in order, and the error it returns;
  \<^item> whether \<open>utxo.PruneMilestoneIndex\<close> fails for an index.
\<close>

record env =
  SolidEntryPointCheckThresholdPast :: index
  forEachSolidEntryPoint ::
    "world \<Rightarrow> index \<Rightarrow> (index \<Rightarrow> bool) \<Rightarrow> (MessageID \<times> index) list \<times> error option"
  TraverseParents :: "world \<Rightarrow> MessageID \<Rightarrow> MessageID list \<times> error option"
  PruneMilestoneIndexError :: "index \<Rightarrow> error option"

definition AdditionalPruningThreshold :: index where
  "AdditionalPruningThreshold = 50"

definition emit :: "event \<Rightarrow> world \<Rightarrow> world" where
  "emit e w = w\<lparr>trace := trace w @ [e]\<rparr>"

section \<open>The collaborators\<close>

text \<open>
  The store facade of package tangle, the ledger store of package utxo and the garbage
  collection of package database are not in the source file. Each is modelled as the
  operation of the spec's external interfaces (section 6) on the state above; a
  reference-counted handle is the value it views, and its release changes nothing.
\<close>

text \<open>Modelled from the spec: \<open>tangle.GetSnapshotInfo\<close>, the spec's \<open>getRetentionState()\<close>.\<close>

definition GetSnapshotInfo :: "world \<Rightarrow> SnapshotInfo option" where
  "GetSnapshotInfo w = snapshotInfo w"

text \<open>Modelled from the spec: \<open>tangle.SetSnapshotInfo\<close>, the spec's \<open>setRetentionState(state)\<close>.\<close>

definition SetSnapshotInfo :: "SnapshotInfo \<Rightarrow> world \<Rightarrow> world" where
  "SetSnapshotInfo si w = emit (EvSetSnapshotInfo si) (w\<lparr>snapshotInfo := Some si\<rparr>)"

text \<open>Modelled from the spec: \<open>tangle.ResetSolidEntryPoints\<close>, the spec's \<open>clear()\<close> of the boundary set.\<close>

definition ResetSolidEntryPoints :: "world \<Rightarrow> world" where
  "ResetSolidEntryPoints w = emit EvResetSolidEntryPoints (w\<lparr>solidEntryPoints := []\<rparr>)"

text \<open>
  Modelled from the spec: \<open>tangle.SolidEntryPointsAdd\<close>, the spec's \<open>add(id,index)\<close>. The
  solid entry points form a set whose membership goes by the identifier only.
\<close>

definition SolidEntryPointsAdd :: "MessageID \<Rightarrow> index \<Rightarrow> world \<Rightarrow> world" where
  "SolidEntryPointsAdd m i w =
     (if m \<in> fst ` set (solidEntryPoints w) then w
      else w\<lparr>solidEntryPoints := solidEntryPoints w @ [(m, i)]\<rparr>)"

text \<open>
  Modelled from the spec: \<open>tangle.StoreSolidEntryPoints\<close>, the spec's \<open>commit()\<close>: the set in
  memory becomes the persisted one.
\<close>

definition StoreSolidEntryPoints :: "world \<Rightarrow> world" where
  "StoreSolidEntryPoints w =
     emit (EvStoreSolidEntryPoints (solidEntryPoints w))
       (w\<lparr>storedSolidEntryPoints := solidEntryPoints w\<rparr>)"

text \<open>Modelled from the spec: \<open>tangle.GetUnconfirmedMessageIDs\<close>, the spec's \<open>getUnconfirmedVertexIDs(index)\<close>.\<close>

definition GetUnconfirmedMessageIDs :: "index \<Rightarrow> world \<Rightarrow> MessageID list" where
  "GetUnconfirmedMessageIDs i w = unconfirmedMessages w i"

text \<open>Modelled from the spec: \<open>tangle.DeleteUnconfirmedMessages\<close>, the spec's \<open>deleteUnconfirmedIndex(index)\<close>.\<close>

definition DeleteUnconfirmedMessages :: "index \<Rightarrow> world \<Rightarrow> world" where
  "DeleteUnconfirmedMessages i w =
     emit (EvDeleteUnconfirmedMessages i)
       (w\<lparr>unconfirmedMessages := (unconfirmedMessages w)(i := [])\<rparr>)"

text \<open>Modelled from the spec: \<open>tangle.GetCachedMessageMetadataOrNil\<close>, the spec's \<open>getVertexMetadata(id)\<close>.\<close>

definition GetCachedMessageMetadataOrNil :: "MessageID \<Rightarrow> world \<Rightarrow> Metadata option" where
  "GetCachedMessageMetadataOrNil m w = metadata w m"

text \<open>Modelled from the spec: \<open>tangle.GetCachedMessageOrNil\<close>, the spec's \<open>getVertex(id)\<close>.\<close>

definition GetCachedMessageOrNil :: "MessageID \<Rightarrow> world \<Rightarrow> Message option" where
  "GetCachedMessageOrNil m w = messages w m"

text \<open>Modelled from the spec: \<open>tangle.DeleteChild\<close>, the spec's \<open>deleteChildEdge(parent,child)\<close>.\<close>

definition DeleteChild :: "MessageID \<Rightarrow> MessageID \<Rightarrow> world \<Rightarrow> world" where
  "DeleteChild parent child w = w\<lparr>children := children w - {(parent, child)}\<rparr>"

text \<open>Modelled from the spec: \<open>tangle.DeleteChildren\<close>, the spec's \<open>deleteChildEdgesOf(id)\<close>.\<close>

definition DeleteChildren :: "MessageID \<Rightarrow> world \<Rightarrow> world" where
  "DeleteChildren m w = w\<lparr>children := {pc \<in> children w. fst pc \<noteq> m}\<rparr>"

text \<open>
  Modelled from the spec: \<open>tangle.CheckIfIndexation\<close>, the secondary index key a payload
  may carry.
\<close>

definition CheckIfIndexation :: "Message \<Rightarrow> string option" where
  "CheckIfIndexation msg = Indexation msg"

text \<open>Modelled from the spec: \<open>tangle.DeleteIndexation\<close>, the spec's \<open>deleteSecondaryIndex(key,id)\<close>.\<close>

definition DeleteIndexation :: "string \<Rightarrow> MessageID \<Rightarrow> world \<Rightarrow> world" where
  "DeleteIndexation ix m w = w\<lparr>indexations := indexations w - {(ix, m)}\<rparr>"

text \<open>
  Modelled from the spec: \<open>tangle.DeleteMessage\<close>, the spec's \<open>deleteVertex(id)\<close>. A vertex
  carries its confirmation metadata, so both records go.
\<close>

definition DeleteMessage :: "MessageID \<Rightarrow> world \<Rightarrow> world" where
  "DeleteMessage m w = w\<lparr>messages := (messages w)(m := None), metadata := (metadata w)(m := None)\<rparr>"

text \<open>Modelled from the spec: \<open>tangle.GetCachedMilestoneOrNil\<close>, the spec's \<open>getMilestone(index)\<close>.\<close>

definition GetCachedMilestoneOrNil :: "index \<Rightarrow> world \<Rightarrow> MessageID option" where
  "GetCachedMilestoneOrNil i w = milestones w i"

text \<open>Modelled from the spec: \<open>tangle.DeleteMilestone\<close>, the spec's \<open>deleteMilestone(index)\<close>.\<close>

definition DeleteMilestone :: "index \<Rightarrow> world \<Rightarrow> world" where
  "DeleteMilestone i w = emit (EvDeleteMilestone i) (w\<lparr>milestones := (milestones w)(i := None)\<rparr>)"

text \<open>
  Modelled from the spec: \<open>utxo.PruneMilestoneIndex\<close>, the spec's
  \<open>pruneLedgerDiff(index) -> error\<close>. Whether the store fails is up to the environment;
  a call that fails is taken to leave the ledger diffs as they were.
\<close>

definition PruneMilestoneIndex :: "env \<Rightarrow> index \<Rightarrow> world \<Rightarrow> error option \<times> world" where
  "PruneMilestoneIndex en i w =
     (case PruneMilestoneIndexError en i of
        Some e \<Rightarrow> (Some e, emit (EvPruneMilestoneIndex i) w)
      | None \<Rightarrow> (None, emit (EvPruneMilestoneIndex i) (w\<lparr>ledgerDiffs := ledgerDiffs w - {i}\<rparr>)))"

text \<open>Modelled from the spec: \<open>database.RunGarbageCollection\<close>, the spec's \<open>runStorageCompaction()\<close>.\<close>

definition RunGarbageCollection :: "world \<Rightarrow> world" where
  "RunGarbageCollection w = emit EvRunGarbageCollection w"

section \<open>The functions of pruning.go\<close>

definition setIsPruning :: "bool \<Rightarrow> world \<Rightarrow> world" where
  "setIsPruning v w = emit (EvSetIsPruning v) (w\<lparr>isPruning := v\<rparr>)"

text \<open>
  \<open>messageIDsToDeleteMap\<close> is a Go map used as a set. It is kept as the list of its keys
  in the order they were first added, without repetition; \<open>len\<close> of the map is the
  length of that list. Go ranges over a map in no fixed order; the model ranges in the
  order of the list.
\<close>

definition mapAdd :: "MessageID \<Rightarrow> MessageID list \<Rightarrow> MessageID list" where
  "mapAdd m keys = (if m \<in> set keys then keys else keys @ [m])"

text \<open>The body of the loop of \<open>pruneMessages\<close>, for one key of the map.\<close>

definition pruneMessage :: "MessageID \<Rightarrow> world \<Rightarrow> world" where
  "pruneMessage messageIDToDelete w =
     (case GetCachedMessageOrNil messageIDToDelete w of
        None \<Rightarrow> w
      | Some msg \<Rightarrow>
          (let w1 = DeleteChild (Parent1MessageID msg) messageIDToDelete w;
               w2 = DeleteChild (Parent2MessageID msg) messageIDToDelete w1;
               w3 = DeleteChildren messageIDToDelete w2;
               w4 = (case CheckIfIndexation msg of
                       None \<Rightarrow> w3
                     | Some ix \<Rightarrow> DeleteIndexation ix messageIDToDelete w3)
           in DeleteMessage messageIDToDelete w4))"

definition pruneMessages :: "MessageID list \<Rightarrow> world \<Rightarrow> nat \<times> world" where
  "pruneMessages messageIDsToDeleteMap w =
     (length messageIDsToDeleteMap,
      fold pruneMessage messageIDsToDeleteMap (emit (EvPruneMessages messageIDsToDeleteMap) w))"

text \<open>The first loop of \<open>pruneUnconfirmedMessages\<close>, for one candidate.\<close>

definition checkUnconfirmed :: "world \<Rightarrow> MessageID \<Rightarrow> MessageID list \<Rightarrow> MessageID list" where
  "checkUnconfirmed w messageID messageIDsToDeleteMap =
     (if messageID \<in> set messageIDsToDeleteMap then messageIDsToDeleteMap
      else case GetCachedMessageMetadataOrNil messageID w of
        None \<Rightarrow> messageIDsToDeleteMap
      | Some meta \<Rightarrow>
          if IsConfirmed meta then messageIDsToDeleteMap
          else messageIDsToDeleteMap @ [messageID])"

definition pruneUnconfirmedMessages :: "index \<Rightarrow> world \<Rightarrow> nat \<times> nat \<times> world" where
  "pruneUnconfirmedMessages targetIndex w =
     (let messageIDsToDeleteMap = fold (checkUnconfirmed w) (GetUnconfirmedMessageIDs targetIndex w) [];
          (msgCountDeleted, w1) = pruneMessages messageIDsToDeleteMap w;
          w2 = DeleteUnconfirmedMessages targetIndex w1
      in (msgCountDeleted, length messageIDsToDeleteMap, w2))"

definition pruneMilestone :: "env \<Rightarrow> index \<Rightarrow> world \<Rightarrow> error option \<times> world" where
  "pruneMilestone en milestoneIndex w =
     (case PruneMilestoneIndex en milestoneIndex w of
        (Some err, w1) \<Rightarrow> (Some err, w1)
      | (None, w1) \<Rightarrow> (None, DeleteMilestone milestoneIndex w1))"

text \<open>
  One pass through the body of the loop of \<open>pruneDatabase\<close>, after the abort check: the
  local \<open>snapshotInfo\<close> and the state it leaves. A \<open>continue\<close> leaves both as they were
  after \<open>pruneUnconfirmedMessages\<close>. The counts only feed the log line.
\<close>

definition pruneIteration :: "env \<Rightarrow> index \<Rightarrow> SnapshotInfo \<Rightarrow> world \<Rightarrow> SnapshotInfo \<times> world" where
  "pruneIteration en milestoneIndex si w =
     (let (txCountDeleted, msgCountChecked, w1) = pruneUnconfirmedMessages milestoneIndex w
      in case GetCachedMilestoneOrNil milestoneIndex w1 of
        None \<Rightarrow> (si, w1)
      | Some msMessageID \<Rightarrow>
          (let (visited, err) = TraverseParents en w1 msMessageID;
               messageIDsToDeleteMap = fold mapAdd visited []
           in case err of
             Some e \<Rightarrow> (si, w1)
           | None \<Rightarrow>
               (let (merr, w2) = pruneMilestone en milestoneIndex w1;
                    (n, w3) = pruneMessages messageIDsToDeleteMap w2;
                    si' = si\<lparr>PruningIndex := milestoneIndex\<rparr>;
                    w4 = SetSnapshotInfo si' w3
                in (si', emit (EvPruningMilestoneIndexChanged milestoneIndex) w4))))"

text \<open>
  The loop \<open>for milestoneIndex := ...; milestoneIndex <= targetIndex; milestoneIndex++\<close>.
  The counter is a \<open>uint32\<close>, so the loop need not end (when \<open>targetIndex\<close> is the
  largest index the increment wraps to 0): not returning is \<open>None\<close>. \<open>abortSignal k\<close>
  says whether the channel is readable when the \<open>select\<close> at the top of the pass for
  milestone \<open>k\<close> runs.
\<close>

partial_function (option) pruneLoop ::
  "env \<Rightarrow> (index \<Rightarrow> bool) \<Rightarrow> index \<Rightarrow> index \<Rightarrow> SnapshotInfo \<Rightarrow> world \<Rightarrow> (outcome \<times> world) option"
where
  "pruneLoop en abortSignal targetIndex milestoneIndex si w =
     (if milestoneIndex \<le> targetIndex then
        (if abortSignal milestoneIndex then Some (Return (Some ErrPruningAborted), w)
         else pruneLoop en abortSignal targetIndex (milestoneIndex + 1)
                (fst (pruneIteration en milestoneIndex si w))
                (snd (pruneIteration en milestoneIndex si w)))
      else Some (Return None, RunGarbageCollection w))"

text \<open>
  Lines 119 to 122 of \<open>pruneDatabase\<close>: the largest target the snapshot allows, and the
  value of \<open>targetIndex\<close> after the clamp. The subtraction is on \<open>uint32\<close>, as written.
\<close>

definition targetIndexMax :: "env \<Rightarrow> SnapshotInfo \<Rightarrow> index" where
  "targetIndexMax en si =
     SnapshotIndex si - SolidEntryPointCheckThresholdPast en - AdditionalPruningThreshold - 1"

definition clampTargetIndex :: "env \<Rightarrow> SnapshotInfo \<Rightarrow> index \<Rightarrow> index" where
  "clampTargetIndex en si targetIndex =
     (if targetIndex > targetIndexMax en si then targetIndexMax en si else targetIndex)"

text \<open>
  Lines 138 to 145: the solid entry points are reset, the walker adds what it yields,
  and the set is stored; the walker's error is handed on. The lock guards against other
  goroutines and has no effect on the state.
\<close>

definition recomputeSolidEntryPoints ::
  "env \<Rightarrow> index \<Rightarrow> (index \<Rightarrow> bool) \<Rightarrow> world \<Rightarrow> error option \<times> world"
where
  "recomputeSolidEntryPoints en targetIndex abortSignal w =
     (let w1 = ResetSolidEntryPoints w;
          (seps, err) = forEachSolidEntryPoint en w1 targetIndex abortSignal;
          w2 = fold (\<lambda>(m, i). SolidEntryPointsAdd m i) seps w1;
          w3 = StoreSolidEntryPoints w2
      in (err, w3))"

text \<open>
  Lines 151 to 157: the state in which the loop starts, when the walker returned no
  error.
\<close>

definition stateBeforeLoop :: "env \<Rightarrow> index \<Rightarrow> (index \<Rightarrow> bool) \<Rightarrow> SnapshotInfo \<Rightarrow> world \<Rightarrow> world" where
  "stateBeforeLoop en targetIndex abortSignal si w =
     (let w4 = snd (recomputeSolidEntryPoints en targetIndex abortSignal (setIsPruning True w));
          si1 = si\<lparr>EntryPointIndex := targetIndex\<rparr>;
          w5 = SetSnapshotInfo si1 w4;
          (d, c, w6) = pruneUnconfirmedMessages (PruningIndex si1) w5
      in w6)"

text \<open>
  Lines 134 to 229: \<open>pruneDatabase\<close> once the checks have passed, with the clamped
  \<open>targetIndex\<close>. The deferred \<open>setIsPruning(false)\<close> runs on every return from here.
\<close>

definition pruneDatabaseRun ::
  "env \<Rightarrow> index \<Rightarrow> (index \<Rightarrow> bool) \<Rightarrow> SnapshotInfo \<Rightarrow> world \<Rightarrow> (outcome \<times> world) option"
where
  "pruneDatabaseRun en targetIndex abortSignal si w =
     (case recomputeSolidEntryPoints en targetIndex abortSignal (setIsPruning True w) of
        (Some err, w4) \<Rightarrow> Some (Return (Some err), setIsPruning False w4)
      | (None, w4) \<Rightarrow>
          (let si1 = si\<lparr>EntryPointIndex := targetIndex\<rparr>
           in map_option (\<lambda>(r, w'). (r, setIsPruning False w'))
                (pruneLoop en abortSignal targetIndex (PruningIndex si1 + 1) si1
                   (stateBeforeLoop en targetIndex abortSignal si w))))"

text \<open>\<open>pruneDatabase\<close>: the checks of lines 109 to 132, then the run.\<close>

definition pruneDatabase ::
  "env \<Rightarrow> index \<Rightarrow> (index \<Rightarrow> bool) \<Rightarrow> world \<Rightarrow> (outcome \<times> world) option"
where
  "pruneDatabase en targetIndex abortSignal w =
     (case GetSnapshotInfo w of
        None \<Rightarrow> Some (Panic ''No snapshotInfo found!'', w)
      | Some si \<Rightarrow>
          if SnapshotIndex si < SolidEntryPointCheckThresholdPast en + AdditionalPruningThreshold + 1
          then Some (Return (Some ErrNotEnoughHistory), w)
          else
            (let targetIndex = clampTargetIndex en si targetIndex
             in if PruningIndex si \<ge> targetIndex then Some (Return (Some ErrNoPruningNeeded), w)
                else if EntryPointIndex si + AdditionalPruningThreshold + 1 > targetIndex
                then Some (Return (Some ErrNotEnoughHistory), w)
                else pruneDatabaseRun en targetIndex abortSignal si w))"

section \<open>Reading a run\<close>

text \<open>
  The Go constant expression
  \<open>SolidEntryPointCheckThresholdPast+AdditionalPruningThreshold+1\<close> is computed exactly
  and has to fit a \<open>uint32\<close>, or the file does not compile.
\<close>

definition constantsFit :: "env \<Rightarrow> bool" where
  "constantsFit en \<longleftrightarrow>
     unat (SolidEntryPointCheckThresholdPast en) + unat AdditionalPruningThreshold + 1 < 2 ^ 32"

text \<open>
  What the walker yields when \<open>pruneDatabase\<close>, called in state \<open>w\<close>, runs it for
  \<open>targetIndex\<close>: the flag is set and the solid entry points are reset by then.
\<close>

definition walkerResult ::
  "env \<Rightarrow> index \<Rightarrow> (index \<Rightarrow> bool) \<Rightarrow> world \<Rightarrow> (MessageID \<times> index) list \<times> error option"
where
  "walkerResult en targetIndex abortSignal w =
     forEachSolidEntryPoint en (ResetSolidEntryPoints (setIsPruning True w)) targetIndex abortSignal"

text \<open>
  The three checks of lines 114 to 132 all pass for the retention state \<open>si\<close> and the
  requested \<open>targetIndex\<close>.
\<close>

definition checksPass :: "env \<Rightarrow> index \<Rightarrow> SnapshotInfo \<Rightarrow> bool" where
  "checksPass en targetIndex si \<longleftrightarrow>
     \<not> SnapshotIndex si < SolidEntryPointCheckThresholdPast en + AdditionalPruningThreshold + 1 \<and>
     \<not> PruningIndex si \<ge> clampTargetIndex en si targetIndex \<and>
     \<not> EntryPointIndex si + AdditionalPruningThreshold + 1 > clampTargetIndex en si targetIndex"

text \<open>The invariant of the retention state (spec, section 3).\<close>

definition retentionInvariant :: "SnapshotInfo \<Rightarrow> bool" where
  "retentionInvariant si \<longleftrightarrow>
     PruningIndex si \<le> EntryPointIndex si \<and> EntryPointIndex si \<le> SnapshotIndex si"

text \<open>The events a run from \<open>w\<close> to \<open>w'\<close> appended to the log.\<close>

definition newEvents :: "world \<Rightarrow> world \<Rightarrow> event list" where
  "newEvents w w' = drop (length (trace w)) (trace w')"

text \<open>
  Projections of a log: the deletion sets handed to \<open>pruneMessages\<close>, the retention
  states handed to \<open>SetSnapshotInfo\<close>, the indices whose unconfirmed messages were
  pruned (one per call of \<open>pruneUnconfirmedMessages\<close>), and the indices announced by
  \<open>PruningMilestoneIndexChanged\<close> (one per pass of the loop that ran to its end).
\<close>

fun deletionSetOf :: "event \<Rightarrow> MessageID list list" where
  "deletionSetOf (EvPruneMessages ids) = [ids]"
| "deletionSetOf _ = []"

definition deletionSets :: "event list \<Rightarrow> MessageID list list" where
  "deletionSets tr = concat (map deletionSetOf tr)"

fun snapshotWriteOf :: "event \<Rightarrow> SnapshotInfo list" where
  "snapshotWriteOf (EvSetSnapshotInfo si) = [si]"
| "snapshotWriteOf _ = []"

definition snapshotWrites :: "event list \<Rightarrow> SnapshotInfo list" where
  "snapshotWrites tr = concat (map snapshotWriteOf tr)"

fun unconfirmedPrunedOf :: "event \<Rightarrow> index list" where
  "unconfirmedPrunedOf (EvDeleteUnconfirmedMessages i) = [i]"
| "unconfirmedPrunedOf _ = []"

definition unconfirmedPruned :: "event list \<Rightarrow> index list" where
  "unconfirmedPruned tr = concat (map unconfirmedPrunedOf tr)"

fun completedOf :: "event \<Rightarrow> index list" where
  "completedOf (EvPruningMilestoneIndexChanged i) = [i]"
| "completedOf _ = []"

definition completed :: "event list \<Rightarrow> index list" where
  "completed tr = concat (map completedOf tr)"

text \<open>The indices \<open>a, a + 1, ..., b\<close> in order (none when \<open>b < a\<close>).\<close>

definition indexRange :: "index \<Rightarrow> index \<Rightarrow> index list" where
  "indexRange a b = map of_nat [unat a ..< unat b + 1]"

text \<open>
  A pass of the loop for milestone \<open>j\<close> from state \<open>v\<close> is skipped (\<open>continue\<close>) when the
  milestone is not found or the traversal of its cone returns an error.
\<close>

definition skipped :: "env \<Rightarrow> index \<Rightarrow> world \<Rightarrow> bool" where
  "skipped en j v =
     (case GetCachedMilestoneOrNil j (snd (snd (pruneUnconfirmedMessages j v))) of
        None \<Rightarrow> True
      | Some ms \<Rightarrow> snd (TraverseParents en (snd (snd (pruneUnconfirmedMessages j v))) ms) \<noteq> None)"

text \<open>
  The passes of the loop for the milestones \<open>js\<close>, one after the other, from the local
  \<open>snapshotInfo\<close> and the state given.
\<close>

definition runPasses :: "env \<Rightarrow> index list \<Rightarrow> SnapshotInfo \<times> world \<Rightarrow> SnapshotInfo \<times> world" where
  "runPasses en js sv = fold (\<lambda>j (s, v). pruneIteration en j s v) js sv"

text \<open>
  The local \<open>snapshotInfo\<close> and the state in which the check at the top of the pass for
  milestone \<open>j\<close> runs, in the run of \<open>pruneDatabase\<close> from \<open>w\<close> with the clamped target
  \<open>t\<close>: the passes for \<open>PruningIndex + 1\<close> to \<open>j - 1\<close> have run.
\<close>

definition stateAtPass ::
  "env \<Rightarrow> index \<Rightarrow> (index \<Rightarrow> bool) \<Rightarrow> SnapshotInfo \<Rightarrow> world \<Rightarrow> index \<Rightarrow> SnapshotInfo \<times> world"
where
  "stateAtPass en t abortSignal si w j =
     runPasses en (indexRange (PruningIndex si + 1) (j - 1))
       (si\<lparr>EntryPointIndex := t\<rparr>, stateBeforeLoop en t abortSignal si w)"

text \<open>
  The milestones whose pass runs in a loop from \<open>k0\<close> to \<open>t\<close>: those before the first one
  at whose check the abort signal is set.
\<close>

definition passesRun :: "(index \<Rightarrow> bool) \<Rightarrow> index \<Rightarrow> index \<Rightarrow> index list" where
  "passesRun abortSignal k0 t = takeWhile (\<lambda>j. \<not> abortSignal j) (indexRange k0 t)"

text \<open>
  In the spec's words (sections 4.2 and 4.5): the candidates of index \<open>j\<close> that are still
  there and still unconfirmed in state \<open>v\<close>, and everything the walk of the cone of
  milestone \<open>j\<close> visits when the pass starts in state \<open>v\<close>, solid entry points included.
\<close>

definition candidatesOf :: "index \<Rightarrow> world \<Rightarrow> MessageID set" where
  "candidatesOf j v =
     set (filter (\<lambda>m. case GetCachedMessageMetadataOrNil m v of
                         None \<Rightarrow> False
                       | Some md \<Rightarrow> \<not> IsConfirmed md)
            (GetUnconfirmedMessageIDs j v))"

definition visitedBy :: "env \<Rightarrow> index \<Rightarrow> world \<Rightarrow> MessageID set" where
  "visitedBy en j v =
     (case GetCachedMilestoneOrNil j (snd (snd (pruneUnconfirmedMessages j v))) of
        None \<Rightarrow> {}
      | Some ms \<Rightarrow> set (fst (TraverseParents en (snd (snd (pruneUnconfirmedMessages j v))) ms)))"

text \<open>
  The deletion sets the spec expects of the passes for the milestones \<open>js\<close>, in order:
  for each pass the unconfirmed candidates of its index and, unless the pass is skipped,
  the whole visited cone. The state of each pass is the one the pass before left.
\<close>

fun expectedDeletions :: "env \<Rightarrow> index list \<Rightarrow> SnapshotInfo \<times> world \<Rightarrow> MessageID set list" where
  "expectedDeletions en [] sv = []"
| "expectedDeletions en (j # js) sv =
     candidatesOf j (snd sv) #
     (if skipped en j (snd sv) then [] else [visitedBy en j (snd sv)]) @
     expectedDeletions en js (pruneIteration en j (fst sv) (snd sv))"

section \<open>A small node, for the concrete runs\<close>

text \<open>
  A node whose snapshot is at 200 and which has pruned nothing yet. Milestone 1 is
  missing, milestone 2 is the message \<open>m2\<close> with parent \<open>m0\<close>, and \<open>m3\<close> is a later
  message on top of both; \<open>u1\<close> is unconfirmed at
  milestone 1 and \<open>u2\<close> is listed as unconfirmed at milestone 2 although only its metadata
  is left. The stored solid entry points are those of the snapshot.
\<close>

definition exampleWorld :: world where
  "exampleWorld =
     \<lparr>snapshotInfo = Some \<lparr>SnapshotIndex = 200, EntryPointIndex = 0, PruningIndex = 0\<rparr>,
      isPruning = False,
      solidEntryPoints = [(''genesis'', 0)],
      storedSolidEntryPoints = [(''genesis'', 0)],
      messages =
        [''m0'' \<mapsto> \<lparr>Parent1MessageID = ''genesis'', Parent2MessageID = ''genesis'', Indexation = None\<rparr>,
         ''m2'' \<mapsto> \<lparr>Parent1MessageID = ''m0'', Parent2MessageID = ''m0'', Indexation = Some ''tag''\<rparr>,
         ''m3'' \<mapsto> \<lparr>Parent1MessageID = ''m2'', Parent2MessageID = ''m0'', Indexation = None\<rparr>,
         ''u1'' \<mapsto> \<lparr>Parent1MessageID = ''m0'', Parent2MessageID = ''m0'', Indexation = None\<rparr>],
      metadata =
        [''m0'' \<mapsto> \<lparr>IsConfirmed = True\<rparr>, ''m2'' \<mapsto> \<lparr>IsConfirmed = True\<rparr>,
         ''m3'' \<mapsto> \<lparr>IsConfirmed = True\<rparr>,
         ''u1'' \<mapsto> \<lparr>IsConfirmed = False\<rparr>, ''u2'' \<mapsto> \<lparr>IsConfirmed = False\<rparr>],
      children = {(''genesis'', ''m0''), (''m0'', ''m2''), (''m0'', ''u1''), (''m2'', ''m3''), (''m0'', ''m3'')},
      indexations = {(''tag'', ''m2'')},
      unconfirmedMessages = (\<lambda>i. [])(1 := [''u1'', ''m0'', ''u1''], 2 := [''u2'']),
      milestones = [2 \<mapsto> ''m2''],
      ledgerDiffs = {1, 2},
      trace = []\<rparr>"

text \<open>The same node with its snapshot at 1000 (scenario A of the spec).\<close>

definition scenarioWorld :: world where
  "scenarioWorld =
     exampleWorld\<lparr>snapshotInfo := Some \<lparr>SnapshotIndex = 1000, EntryPointIndex = 0, PruningIndex = 0\<rparr>\<rparr>"

text \<open>
  Collaborators for it: the threshold is 50; the walker yields \<open>m0\<close> as the one solid
  entry point; the traversal from a stored message visits the message and its first
  parent, and nothing from a message that is not stored; the ledger store never fails.
\<close>

definition exampleEnv :: env where
  "exampleEnv =
     \<lparr>SolidEntryPointCheckThresholdPast = 50,
      forEachSolidEntryPoint = (\<lambda>w t a. ([(''m0'', t)], None)),
      TraverseParents =
        (\<lambda>w m. (case messages w m of None \<Rightarrow> [] | Some msg \<Rightarrow> [m, Parent1MessageID msg], None)),
      PruneMilestoneIndexError = (\<lambda>i. None)\<rparr>"

text \<open>
  The same with a ledger store that fails, with a walker that fails half way, with a
  traversal that fails, and with a walker whose one solid entry point is \<open>m3\<close>, which
  the cones of milestones 1 and 2 do not reach.
\<close>

definition failingLedgerEnv :: env where
  "failingLedgerEnv = exampleEnv\<lparr>PruneMilestoneIndexError := (\<lambda>i. Some (ErrOther ''ledger''))\<rparr>"

definition failingWalkerEnv :: env where
  "failingWalkerEnv =
     exampleEnv\<lparr>forEachSolidEntryPoint := (\<lambda>w t a. ([(''partial'', t)], Some (ErrOther ''walker'')))\<rparr>"

definition failingTraversalEnv :: env where
  "failingTraversalEnv =
     exampleEnv\<lparr>TraverseParents := (\<lambda>w m. ([m], Some (ErrOther ''traversal'')))\<rparr>"

definition keptEnv :: env where
  "keptEnv = exampleEnv\<lparr>forEachSolidEntryPoint := (\<lambda>w t a. ([(''m3'', t)], None))\<rparr>"

text \<open>The abort signal that never fires, and the one that fires at the pass for \<open>k\<close>.\<close>

definition neverAborted :: "index \<Rightarrow> bool" where
  "neverAborted j = False"

definition abortedAt :: "index \<Rightarrow> index \<Rightarrow> bool" where
  "abortedAt k j \<longleftrightarrow> j = k"

section \<open>Auxiliary facts\<close>

lemmas prim_defs = emit_def GetSnapshotInfo_def SetSnapshotInfo_def ResetSolidEntryPoints_def
  SolidEntryPointsAdd_def StoreSolidEntryPoints_def GetUnconfirmedMessageIDs_def
  DeleteUnconfirmedMessages_def GetCachedMessageMetadataOrNil_def GetCachedMessageOrNil_def
  DeleteChild_def DeleteChildren_def CheckIfIndexation_def DeleteIndexation_def DeleteMessage_def
  GetCachedMilestoneOrNil_def DeleteMilestone_def PruneMilestoneIndex_def RunGarbageCollection_def
  setIsPruning_def

lemma pruneMessage_keeps:
  "snapshotInfo (pruneMessage m w) = snapshotInfo w"
  "isPruning (pruneMessage m w) = isPruning w"
  "solidEntryPoints (pruneMessage m w) = solidEntryPoints w"
  "storedSolidEntryPoints (pruneMessage m w) = storedSolidEntryPoints w"
  "unconfirmedMessages (pruneMessage m w) = unconfirmedMessages w"
  "milestones (pruneMessage m w) = milestones w"
  "ledgerDiffs (pruneMessage m w) = ledgerDiffs w"
  "trace (pruneMessage m w) = trace w"
  by (simp_all add: pruneMessage_def prim_defs Let_def split: option.splits)

lemma fold_pruneMessage_keeps:
  "snapshotInfo (fold pruneMessage ms w) = snapshotInfo w"
  "isPruning (fold pruneMessage ms w) = isPruning w"
  "solidEntryPoints (fold pruneMessage ms w) = solidEntryPoints w"
  "storedSolidEntryPoints (fold pruneMessage ms w) = storedSolidEntryPoints w"
  "unconfirmedMessages (fold pruneMessage ms w) = unconfirmedMessages w"
  "milestones (fold pruneMessage ms w) = milestones w"
  "ledgerDiffs (fold pruneMessage ms w) = ledgerDiffs w"
  "trace (fold pruneMessage ms w) = trace w"
  by (induction ms arbitrary: w; simp add: pruneMessage_keeps)+

lemma pruneMessages_keeps:
  "snapshotInfo (snd (pruneMessages ms w)) = snapshotInfo w"
  "isPruning (snd (pruneMessages ms w)) = isPruning w"
  "solidEntryPoints (snd (pruneMessages ms w)) = solidEntryPoints w"
  "storedSolidEntryPoints (snd (pruneMessages ms w)) = storedSolidEntryPoints w"
  "unconfirmedMessages (snd (pruneMessages ms w)) = unconfirmedMessages w"
  "milestones (snd (pruneMessages ms w)) = milestones w"
  "ledgerDiffs (snd (pruneMessages ms w)) = ledgerDiffs w"
  "trace (snd (pruneMessages ms w)) = trace w @ [EvPruneMessages ms]"
  by (simp_all add: pruneMessages_def fold_pruneMessage_keeps emit_def)

lemma pruneUnconfirmedMessages_keeps:
  "snapshotInfo (snd (snd (pruneUnconfirmedMessages i w))) = snapshotInfo w"
  "isPruning (snd (snd (pruneUnconfirmedMessages i w))) = isPruning w"
  "solidEntryPoints (snd (snd (pruneUnconfirmedMessages i w))) = solidEntryPoints w"
  "storedSolidEntryPoints (snd (snd (pruneUnconfirmedMessages i w))) = storedSolidEntryPoints w"
  "unconfirmedMessages (snd (snd (pruneUnconfirmedMessages i w))) = (unconfirmedMessages w)(i := [])"
  "milestones (snd (snd (pruneUnconfirmedMessages i w))) = milestones w"
  "ledgerDiffs (snd (snd (pruneUnconfirmedMessages i w))) = ledgerDiffs w"
  "trace (snd (snd (pruneUnconfirmedMessages i w))) =
     trace w @ [EvPruneMessages (fold (checkUnconfirmed w) (unconfirmedMessages w i) []),
                EvDeleteUnconfirmedMessages i]"
  by (simp_all add: pruneUnconfirmedMessages_def Let_def split_beta pruneMessages_keeps
        DeleteUnconfirmedMessages_def GetUnconfirmedMessageIDs_def emit_def)

lemma pruneMilestone_keeps:
  "snapshotInfo (snd (pruneMilestone en i w)) = snapshotInfo w"
  "isPruning (snd (pruneMilestone en i w)) = isPruning w"
  "solidEntryPoints (snd (pruneMilestone en i w)) = solidEntryPoints w"
  "storedSolidEntryPoints (snd (pruneMilestone en i w)) = storedSolidEntryPoints w"
  "unconfirmedMessages (snd (pruneMilestone en i w)) = unconfirmedMessages w"
  "trace (snd (pruneMilestone en i w)) =
     trace w @ EvPruneMilestoneIndex i #
       (if PruneMilestoneIndexError en i = None then [EvDeleteMilestone i] else [])"
  "milestones (snd (pruneMilestone en i w)) =
     (if PruneMilestoneIndexError en i = None then (milestones w)(i := None) else milestones w)"
  by (simp_all add: pruneMilestone_def prim_defs split: option.splits prod.splits)

lemma pruneIteration_skipped:
  "skipped en j v \<Longrightarrow> pruneIteration en j s v = (s, snd (snd (pruneUnconfirmedMessages j v)))"
  by (auto simp: pruneIteration_def skipped_def Let_def split_beta split: option.splits)

lemma pruneIteration_done:
  assumes "\<not> skipped en j v"
  shows "fst (pruneIteration en j s v) = s\<lparr>PruningIndex := j\<rparr>"
    and "snapshotInfo (snd (pruneIteration en j s v)) = Some (s\<lparr>PruningIndex := j\<rparr>)"
    and "unconfirmedMessages (snd (pruneIteration en j s v)) = (unconfirmedMessages v)(j := [])"
    and "solidEntryPoints (snd (pruneIteration en j s v)) = solidEntryPoints v"
    and "\<exists>ms mid. milestones v j = Some ms \<and>
           snd (TraverseParents en (snd (snd (pruneUnconfirmedMessages j v))) ms) = None \<and>
           trace (snd (pruneIteration en j s v)) =
           trace v @ [EvPruneMessages (fold (checkUnconfirmed v) (unconfirmedMessages v j) []),
                      EvDeleteUnconfirmedMessages j] @ mid @
             [EvPruneMessages (fold mapAdd (fst (TraverseParents en (snd (snd (pruneUnconfirmedMessages j v))) ms)) []),
              EvSetSnapshotInfo (s\<lparr>PruningIndex := j\<rparr>), EvPruningMilestoneIndexChanged j] \<and>
           set mid \<subseteq> {EvPruneMilestoneIndex j, EvDeleteMilestone j}"
  using assms
  by (auto simp: pruneIteration_def skipped_def Let_def split_beta pruneMessages_keeps
        pruneMilestone_keeps pruneUnconfirmedMessages_keeps SetSnapshotInfo_def emit_def
        GetCachedMilestoneOrNil_def
      split: option.splits)


lemma pruneMessage_absent: "messages w m = None \<Longrightarrow> pruneMessage m w = w"
  by (simp add: pruneMessage_def GetCachedMessageOrNil_def)

lemma fold_pruneMessage_absent:
  "\<forall>m \<in> set ms. messages w m = None \<Longrightarrow> fold pruneMessage ms w = w"
  by (induction ms) (simp_all add: pruneMessage_absent)

lemma index_succ: "(j::index) \<le> t \<Longrightarrow> unat t < 2^32 - 1 \<Longrightarrow> unat (j + 1) = unat j + 1"
proof -
  assume a: "j \<le> t" and b: "unat t < 2^32 - 1"
  from a have "unat j \<le> unat t" by (simp add: word_le_nat_alt)
  with b have "unat j + 1 < 2 ^ 32" by simp
  then show ?thesis by (simp add: unat_word_ariths)
qed

lemma index_less_succ:
  "(j::index) \<le> t \<Longrightarrow> unat t < 2^32 - 1 \<Longrightarrow> i < j + 1 \<longleftrightarrow> i \<le> j"
  by (simp add: word_less_nat_alt word_le_nat_alt index_succ) arith

lemma pruneLoop_rule:
  assumes fin: "unat targetIndex < 2^32 - 1"
    and init: "I k si w"
    and step: "\<And>j s v. I j s v \<Longrightarrow> j \<le> targetIndex \<Longrightarrow> \<not> abortSignal j \<Longrightarrow>
                 I (j + 1) (fst (pruneIteration en j s v)) (snd (pruneIteration en j s v))"
  shows "\<exists>r w'. pruneLoop en abortSignal targetIndex k si w = Some (r, w') \<and>
           ((r = Return (Some ErrPruningAborted) \<and> (\<exists>j s. j \<le> targetIndex \<and> abortSignal j \<and> I j s w'))
            \<or> (r = Return None \<and> (\<exists>j s v. \<not> j \<le> targetIndex \<and> I j s v \<and> w' = RunGarbageCollection v)))"
  using init
proof (induction "unat targetIndex + 1 - unat k" arbitrary: k si w)
  case 0
  then have "\<not> k \<le> targetIndex" by (simp add: word_le_nat_alt)
  then show ?case using 0 by (subst pruneLoop.simps) auto
next
  case (Suc n)
  show ?case
  proof (cases "k \<le> targetIndex")
    case False
    then show ?thesis using Suc.prems by (subst pruneLoop.simps) auto
  next
    case le: True
    show ?thesis
    proof (cases "abortSignal k")
      case True
      then show ?thesis using le Suc.prems by (subst pruneLoop.simps) auto
    next
      case False
      have u: "unat (k + 1) = unat k + 1" using le fin by (rule index_succ)
      have n: "n = unat targetIndex + 1 - unat (k + 1)" using Suc.hyps(2) u by simp
      have I': "I (k + 1) (fst (pruneIteration en k si w)) (snd (pruneIteration en k si w))"
        using step [OF Suc.prems le False] .
      from Suc.hyps(1) [OF n I'] show ?thesis
        using le False by (subst pruneLoop.simps) simp
    qed
  qed
qed

lemma targetIndexMax_unat:
  assumes "constantsFit en"
    and "\<not> SnapshotIndex si < SolidEntryPointCheckThresholdPast en + AdditionalPruningThreshold + 1"
  shows "unat (targetIndexMax en si) + unat (SolidEntryPointCheckThresholdPast en) + 51 = unat (SnapshotIndex si)"
proof -
  let ?c = "SolidEntryPointCheckThresholdPast en + AdditionalPruningThreshold + 1"
  have c: "unat ?c = unat (SolidEntryPointCheckThresholdPast en) + 51"
    using assms(1) by (simp add: constantsFit_def AdditionalPruningThreshold_def unat_word_ariths)
  have le: "?c \<le> SnapshotIndex si" using assms(2) by simp
  have "targetIndexMax en si = SnapshotIndex si - ?c"
    by (simp add: targetIndexMax_def)
  then have "unat (targetIndexMax en si) = unat (SnapshotIndex si) - unat ?c"
    using le by (simp add: unat_sub)
  moreover have "unat ?c \<le> unat (SnapshotIndex si)" using le by (simp add: word_le_nat_alt)
  ultimately show ?thesis using c by simp
qed

lemma clampTargetIndex_le: "clampTargetIndex en si t \<le> targetIndexMax en si"
  by (auto simp: clampTargetIndex_def)

lemma clamp_bounds:
  assumes "constantsFit en"
    and "\<not> SnapshotIndex si < SolidEntryPointCheckThresholdPast en + AdditionalPruningThreshold + 1"
  shows "unat (clampTargetIndex en si t) < 2^32 - 1"
    and "clampTargetIndex en si t \<le> SnapshotIndex si"
proof -
  have m: "unat (targetIndexMax en si) + 51 \<le> unat (SnapshotIndex si)"
    using targetIndexMax_unat [OF assms] by simp
  have b: "unat (SnapshotIndex si) < 2 ^ 32" using unsigned_less [of "SnapshotIndex si"] by simp
  have c: "unat (clampTargetIndex en si t) \<le> unat (targetIndexMax en si)"
    using clampTargetIndex_le [of en si t] by (simp add: word_le_nat_alt)
  from m b c show "unat (clampTargetIndex en si t) < 2^32 - 1" by simp
  from m c show "clampTargetIndex en si t \<le> SnapshotIndex si" by (simp add: word_le_nat_alt)
qed

lemma pruneDatabase_run:
  "GetSnapshotInfo w = Some si \<Longrightarrow> checksPass en targetIndex si \<Longrightarrow>
   pruneDatabase en targetIndex abortSignal w =
     pruneDatabaseRun en (clampTargetIndex en si targetIndex) abortSignal si w"
  by (simp add: pruneDatabase_def checksPass_def Let_def)

lemma pruneDatabase_rejected:
  "GetSnapshotInfo w = Some si \<Longrightarrow> \<not> checksPass en targetIndex si \<Longrightarrow>
   \<exists>e. pruneDatabase en targetIndex abortSignal w = Some (Return (Some e), w)"
  by (auto simp: pruneDatabase_def checksPass_def Let_def)

lemma fold_SolidEntryPointsAdd_keeps:
  "snapshotInfo (fold (\<lambda>(m, i). SolidEntryPointsAdd m i) seps w) = snapshotInfo w"
  "isPruning (fold (\<lambda>(m, i). SolidEntryPointsAdd m i) seps w) = isPruning w"
  "unconfirmedMessages (fold (\<lambda>(m, i). SolidEntryPointsAdd m i) seps w) = unconfirmedMessages w"
  "milestones (fold (\<lambda>(m, i). SolidEntryPointsAdd m i) seps w) = milestones w"
  "metadata (fold (\<lambda>(m, i). SolidEntryPointsAdd m i) seps w) = metadata w"
  "storedSolidEntryPoints (fold (\<lambda>(m, i). SolidEntryPointsAdd m i) seps w) = storedSolidEntryPoints w"
  "trace (fold (\<lambda>(m, i). SolidEntryPointsAdd m i) seps w) = trace w"
  by (induction seps arbitrary: w; simp add: SolidEntryPointsAdd_def split_beta)+

lemma fold_SolidEntryPointsAdd_ids:
  "fst ` set (solidEntryPoints (fold (\<lambda>(m, i). SolidEntryPointsAdd m i) seps w)) =
     fst ` set (solidEntryPoints w) \<union> fst ` set seps"
  by (induction seps arbitrary: w) (auto simp: SolidEntryPointsAdd_def split_beta)

lemma recompute_keeps:
  "fst (recomputeSolidEntryPoints en t a (setIsPruning True w)) = snd (walkerResult en t a w)"
  "snapshotInfo (snd (recomputeSolidEntryPoints en t a (setIsPruning True w))) = snapshotInfo w"
  "unconfirmedMessages (snd (recomputeSolidEntryPoints en t a (setIsPruning True w))) = unconfirmedMessages w"
  "milestones (snd (recomputeSolidEntryPoints en t a (setIsPruning True w))) = milestones w"
  "metadata (snd (recomputeSolidEntryPoints en t a (setIsPruning True w))) = metadata w"
  "fst ` set (solidEntryPoints (snd (recomputeSolidEntryPoints en t a (setIsPruning True w)))) =
     fst ` set (fst (walkerResult en t a w))"
  "storedSolidEntryPoints (snd (recomputeSolidEntryPoints en t a (setIsPruning True w))) =
     solidEntryPoints (snd (recomputeSolidEntryPoints en t a (setIsPruning True w)))"
  "trace (snd (recomputeSolidEntryPoints en t a (setIsPruning True w))) =
     trace w @ [EvSetIsPruning True, EvResetSolidEntryPoints,
                EvStoreSolidEntryPoints
                  (solidEntryPoints (snd (recomputeSolidEntryPoints en t a (setIsPruning True w))))]"
  by (simp_all add: recomputeSolidEntryPoints_def walkerResult_def Let_def split_beta
        fold_SolidEntryPointsAdd_keeps fold_SolidEntryPointsAdd_ids StoreSolidEntryPoints_def
        ResetSolidEntryPoints_def setIsPruning_def emit_def)

lemma checkUnconfirmed_cong: "metadata v = metadata w \<Longrightarrow> checkUnconfirmed v = checkUnconfirmed w"
  by (intro ext) (simp add: checkUnconfirmed_def GetCachedMessageMetadataOrNil_def)

lemma stateBeforeLoop_keeps:
  "snapshotInfo (stateBeforeLoop en t a si w) = Some (si\<lparr>EntryPointIndex := t\<rparr>)"
  "unconfirmedMessages (stateBeforeLoop en t a si w) = (unconfirmedMessages w)(PruningIndex si := [])"
  "milestones (stateBeforeLoop en t a si w) = milestones w"
  "fst ` set (solidEntryPoints (stateBeforeLoop en t a si w)) = fst ` set (fst (walkerResult en t a w))"
  "trace (stateBeforeLoop en t a si w) =
     trace w @ [EvSetIsPruning True, EvResetSolidEntryPoints,
                EvStoreSolidEntryPoints (solidEntryPoints (stateBeforeLoop en t a si w)),
                EvSetSnapshotInfo (si\<lparr>EntryPointIndex := t\<rparr>),
                EvPruneMessages (fold (checkUnconfirmed w) (unconfirmedMessages w (PruningIndex si)) []),
                EvDeleteUnconfirmedMessages (PruningIndex si)]"
proof -
  let ?w4 = "snd (recomputeSolidEntryPoints en t a (setIsPruning True w))"
  let ?w5 = "SetSnapshotInfo (si\<lparr>EntryPointIndex := t\<rparr>) ?w4"
  have s: "stateBeforeLoop en t a si w = snd (snd (pruneUnconfirmedMessages (PruningIndex si) ?w5))"
    by (simp add: stateBeforeLoop_def Let_def split_beta)
  have m: "metadata ?w5 = metadata w"
    by (simp add: SetSnapshotInfo_def emit_def recompute_keeps)
  have c: "checkUnconfirmed ?w5 = checkUnconfirmed w" by (rule checkUnconfirmed_cong [OF m])
  have e: "solidEntryPoints (stateBeforeLoop en t a si w) = solidEntryPoints ?w4"
    by (simp add: s pruneUnconfirmedMessages_keeps SetSnapshotInfo_def emit_def)
  show "snapshotInfo (stateBeforeLoop en t a si w) = Some (si\<lparr>EntryPointIndex := t\<rparr>)"
    by (simp add: s pruneUnconfirmedMessages_keeps SetSnapshotInfo_def emit_def)
  show "unconfirmedMessages (stateBeforeLoop en t a si w) = (unconfirmedMessages w)(PruningIndex si := [])"
    by (simp add: s pruneUnconfirmedMessages_keeps SetSnapshotInfo_def emit_def recompute_keeps)
  show "milestones (stateBeforeLoop en t a si w) = milestones w"
    by (simp add: s pruneUnconfirmedMessages_keeps SetSnapshotInfo_def emit_def recompute_keeps)
  show "fst ` set (solidEntryPoints (stateBeforeLoop en t a si w)) = fst ` set (fst (walkerResult en t a w))"
    by (simp add: e recompute_keeps)
  have "trace (stateBeforeLoop en t a si w) =
     trace ?w4 @ [EvSetSnapshotInfo (si\<lparr>EntryPointIndex := t\<rparr>),
                EvPruneMessages (fold (checkUnconfirmed w) (unconfirmedMessages w (PruningIndex si)) []),
                EvDeleteUnconfirmedMessages (PruningIndex si)]"
    unfolding s pruneUnconfirmedMessages_keeps c
    by (simp add: SetSnapshotInfo_def emit_def recompute_keeps(3))
  then show "trace (stateBeforeLoop en t a si w) =
     trace w @ [EvSetIsPruning True, EvResetSolidEntryPoints,
                EvStoreSolidEntryPoints (solidEntryPoints (stateBeforeLoop en t a si w)),
                EvSetSnapshotInfo (si\<lparr>EntryPointIndex := t\<rparr>),
                EvPruneMessages (fold (checkUnconfirmed w) (unconfirmedMessages w (PruningIndex si)) []),
                EvDeleteUnconfirmedMessages (PruningIndex si)]"
    unfolding e by (simp add: recompute_keeps(8))
qed

lemma pruneDatabaseRun_walker_error:
  "snd (walkerResult en t a w) = Some e \<Longrightarrow>
   pruneDatabaseRun en t a si w =
     Some (Return (Some e), setIsPruning False (snd (recomputeSolidEntryPoints en t a (setIsPruning True w))))"
  using recompute_keeps(1) [of en t a w]
  by (cases "recomputeSolidEntryPoints en t a (setIsPruning True w)")
     (simp add: pruneDatabaseRun_def)

lemma pruneDatabaseRun_rule:
  assumes fin: "unat t < 2^32 - 1"
    and ok: "snd (walkerResult en t a w) = None"
    and init: "I (PruningIndex si + 1) (si\<lparr>EntryPointIndex := t\<rparr>) (stateBeforeLoop en t a si w)"
    and step: "\<And>j s v. I j s v \<Longrightarrow> j \<le> t \<Longrightarrow> \<not> a j \<Longrightarrow>
                 I (j + 1) (fst (pruneIteration en j s v)) (snd (pruneIteration en j s v))"
  shows "\<exists>r w'. pruneDatabaseRun en t a si w = Some (r, setIsPruning False w') \<and>
           ((r = Return (Some ErrPruningAborted) \<and> (\<exists>j s. j \<le> t \<and> a j \<and> I j s w'))
            \<or> (r = Return None \<and> (\<exists>j s v. \<not> j \<le> t \<and> I j s v \<and> w' = RunGarbageCollection v)))"
proof -
  from pruneLoop_rule [of t I "PruningIndex si + 1" "si\<lparr>EntryPointIndex := t\<rparr>"
      "stateBeforeLoop en t a si w" a en, OF fin init step]
  obtain r w' where
    l: "pruneLoop en a t (PruningIndex si + 1) (si\<lparr>EntryPointIndex := t\<rparr>) (stateBeforeLoop en t a si w)
          = Some (r, w')"
    and p: "(r = Return (Some ErrPruningAborted) \<and> (\<exists>j s. j \<le> t \<and> a j \<and> I j s w'))
            \<or> (r = Return None \<and> (\<exists>j s v. \<not> j \<le> t \<and> I j s v \<and> w' = RunGarbageCollection v))"
    by blast
  have "pruneDatabaseRun en t a si w = Some (r, setIsPruning False w')"
    using recompute_keeps(1) [of en t a w] ok l
    by (cases "recomputeSolidEntryPoints en t a (setIsPruning True w)")
       (simp add: pruneDatabaseRun_def Let_def)
  with p show ?thesis by blast
qed

lemma newEvents_same: "newEvents w w = []"
  by (simp add: newEvents_def)

lemma setIsPruning_keeps:
  "snapshotInfo (setIsPruning b w) = snapshotInfo w"
  "solidEntryPoints (setIsPruning b w) = solidEntryPoints w"
  "storedSolidEntryPoints (setIsPruning b w) = storedSolidEntryPoints w"
  "milestones (setIsPruning b w) = milestones w"
  "trace (setIsPruning b w) = trace w @ [EvSetIsPruning b]"
  by (simp_all add: setIsPruning_def emit_def)

lemma RunGarbageCollection_keeps:
  "snapshotInfo (RunGarbageCollection w) = snapshotInfo w"
  "solidEntryPoints (RunGarbageCollection w) = solidEntryPoints w"
  "storedSolidEntryPoints (RunGarbageCollection w) = storedSolidEntryPoints w"
  "milestones (RunGarbageCollection w) = milestones w"
  "trace (RunGarbageCollection w) = trace w @ [EvRunGarbageCollection]"
  by (simp_all add: RunGarbageCollection_def emit_def)

lemma pruneIteration_trace_skipped:
  assumes "skipped en j v"
  shows "fst (pruneIteration en j s v) = s"
    and "snapshotInfo (snd (pruneIteration en j s v)) = snapshotInfo v"
    and "milestones (snd (pruneIteration en j s v)) = milestones v"
    and "unconfirmedMessages (snd (pruneIteration en j s v)) = (unconfirmedMessages v)(j := [])"
    and "solidEntryPoints (snd (pruneIteration en j s v)) = solidEntryPoints v"
    and "trace (snd (pruneIteration en j s v)) =
           trace v @ [EvPruneMessages (fold (checkUnconfirmed v) (unconfirmedMessages v j) []),
                      EvDeleteUnconfirmedMessages j]"
  using assms by (simp_all add: pruneIteration_skipped pruneUnconfirmedMessages_keeps)

lemma checksPass_lt: "checksPass en targetIndex si \<Longrightarrow> PruningIndex si < clampTargetIndex en si targetIndex"
  by (simp add: checksPass_def not_le)

lemma checksPass_bounds:
  assumes "constantsFit en" and "checksPass en targetIndex si"
  shows "unat (clampTargetIndex en si targetIndex) < 2^32 - 1"
    and "clampTargetIndex en si targetIndex \<le> SnapshotIndex si"
  using clamp_bounds [OF assms(1), of si targetIndex] assms(2) by (simp_all add: checksPass_def)

lemma pruneIteration_unconfirmedPruned:
  "\<exists>tr. trace (snd (pruneIteration en j s v)) = trace v @ tr \<and> unconfirmedPruned tr = [j]"
proof (cases "skipped en j v")
  case True
  then show ?thesis by (simp add: pruneIteration_trace_skipped unconfirmedPruned_def)
next
  case False
  from pruneIteration_done(5) [OF False, of s] obtain ms mid where
    tr: "trace (snd (pruneIteration en j s v)) =
       trace v @ [EvPruneMessages (fold (checkUnconfirmed v) (unconfirmedMessages v j) []),
                  EvDeleteUnconfirmedMessages j] @ mid @
         [EvPruneMessages (fold mapAdd (fst (TraverseParents en (snd (snd (pruneUnconfirmedMessages j v))) ms)) []),
          EvSetSnapshotInfo (s\<lparr>PruningIndex := j\<rparr>), EvPruningMilestoneIndexChanged j]"
    and mid: "set mid \<subseteq> {EvPruneMilestoneIndex j, EvDeleteMilestone j}" by blast
  have m: "unconfirmedPruned mid = []" using mid
    by (induction mid) (auto simp: unconfirmedPruned_def)
  show ?thesis using m by (simp add: tr unconfirmedPruned_def)
qed

lemma pruneIteration_snapshotInfo:
  "snapshotInfo v = Some s \<Longrightarrow>
   snapshotInfo (snd (pruneIteration en j s v)) = Some (fst (pruneIteration en j s v)) \<and>
   EntryPointIndex (fst (pruneIteration en j s v)) = EntryPointIndex s \<and>
   SnapshotIndex (fst (pruneIteration en j s v)) = SnapshotIndex s"
  by (cases "skipped en j v") (simp_all add: pruneIteration_trace_skipped pruneIteration_done)

lemma full_run:
  assumes fit: "constantsFit en"
    and si: "GetSnapshotInfo w = Some si"
    and pass: "checksPass en targetIndex si"
    and ok: "snd (walkerResult en (clampTargetIndex en si targetIndex) abortSignal w) = None"
    and na: "\<forall>k. PruningIndex si < k \<and> k \<le> clampTargetIndex en si targetIndex \<longrightarrow> \<not> abortSignal k"
  shows "\<exists>w' s. pruneDatabase en targetIndex abortSignal w = Some (Return None, w') \<and>
           GetSnapshotInfo w' = Some s \<and> EntryPointIndex s = clampTargetIndex en si targetIndex \<and>
           unconfirmedPruned (newEvents w w') =
             PruningIndex si # indexRange (PruningIndex si + 1) (clampTargetIndex en si targetIndex)"
proof -
  define t where "t = clampTargetIndex en si targetIndex"
  have fin: "unat t < 2^32 - 1"
    unfolding t_def using checksPass_bounds [OF fit pass] by blast
  have lt: "PruningIndex si < t" unfolding t_def by (rule checksPass_lt [OF pass])
  have run: "pruneDatabase en targetIndex abortSignal w = pruneDatabaseRun en t abortSignal si w"
    unfolding t_def by (rule pruneDatabase_run [OF si pass])
  define I where "I = (\<lambda>(j::index) (s::SnapshotInfo) (v::world).
      snapshotInfo v = Some s \<and> EntryPointIndex s = t \<and> PruningIndex si < j \<and> unat j \<le> unat t + 1 \<and>
      (\<exists>tr. trace v = trace w @ tr \<and>
         unconfirmedPruned tr = PruningIndex si # map of_nat [unat (PruningIndex si + 1) ..< unat j]))"
  have u0: "unat (PruningIndex si + 1) = unat (PruningIndex si) + 1"
    using lt fin by (intro index_succ [of _ t]) simp_all
  have init: "I (PruningIndex si + 1) (si\<lparr>EntryPointIndex := t\<rparr>) (stateBeforeLoop en t abortSignal si w)"
    using lt fin u0
    by (simp add: I_def stateBeforeLoop_keeps unconfirmedPruned_def word_less_nat_alt)
  have step: "I (j + 1) (fst (pruneIteration en j s v)) (snd (pruneIteration en j s v))"
    if i: "I j s v" and j: "j \<le> t" and "\<not> abortSignal j" for j s v
  proof -
    have u: "unat (j + 1) = unat j + 1" using j fin by (rule index_succ)
    have jt: "unat j \<le> unat t" using j by (simp add: word_le_nat_alt)
    have pj: "unat (PruningIndex si) < unat j" using i by (simp add: I_def word_less_nat_alt)
    from i obtain tr where tr: "trace v = trace w @ tr"
      and up: "unconfirmedPruned tr = PruningIndex si # map of_nat [unat (PruningIndex si + 1) ..< unat j]"
      by (auto simp: I_def)
    from pruneIteration_unconfirmedPruned [of en j s v] obtain tr' where
      tr': "trace (snd (pruneIteration en j s v)) = trace v @ tr'" and up': "unconfirmedPruned tr' = [j]"
      by blast
    have "unconfirmedPruned (tr @ tr') =
            PruningIndex si # map of_nat [unat (PruningIndex si + 1) ..< unat (j + 1)]"
      using up up' pj by (simp add: unconfirmedPruned_def u u0)
    moreover have "snapshotInfo v = Some s" "EntryPointIndex s = t" using i by (simp_all add: I_def)
    ultimately show ?thesis
      using pruneIteration_snapshotInfo [of v s en j] tr tr' pj jt u
      by (simp add: I_def word_less_nat_alt)
  qed
  from pruneDatabaseRun_rule [of t en abortSignal w I si, OF fin ok [folded t_def] init step]
  obtain r w' where
    r: "pruneDatabaseRun en t abortSignal si w = Some (r, setIsPruning False w')"
    and p: "(r = Return (Some ErrPruningAborted) \<and> (\<exists>j s. j \<le> t \<and> abortSignal j \<and> I j s w'))
            \<or> (r = Return None \<and> (\<exists>j s v. \<not> j \<le> t \<and> I j s v \<and> w' = RunGarbageCollection v))"
    by blast
  have "\<not> (\<exists>j s. j \<le> t \<and> abortSignal j \<and> I j s w')"
    using na by (auto simp: I_def t_def)
  with p obtain j s v where rn: "r = Return None" and j: "\<not> j \<le> t" and i: "I j s v"
    and w': "w' = RunGarbageCollection v" by blast
  have uj: "unat j = unat t + 1" using j i by (simp add: I_def word_le_nat_alt)
  from i obtain tr where tr: "trace v = trace w @ tr"
      and up: "unconfirmedPruned tr = PruningIndex si # map of_nat [unat (PruningIndex si + 1) ..< unat j]"
      and s: "snapshotInfo v = Some s" "EntryPointIndex s = t"
    by (auto simp: I_def)
  have "unconfirmedPruned (newEvents w (setIsPruning False w')) =
          PruningIndex si # indexRange (PruningIndex si + 1) t"
    using up uj
    by (simp add: newEvents_def w' setIsPruning_keeps RunGarbageCollection_keeps tr
          unconfirmedPruned_def indexRange_def)
  moreover have "GetSnapshotInfo (setIsPruning False w') = Some s"
    using s by (simp add: GetSnapshotInfo_def w' setIsPruning_keeps RunGarbageCollection_keeps)
  ultimately show ?thesis using run r rn s(2) unfolding t_def [symmetric] by auto
qed

lemma checkUnconfirmed_set:
  "set (fold (checkUnconfirmed w) xs acc) =
     set acc \<union> {m \<in> set xs. \<exists>md. metadata w m = Some md \<and> \<not> IsConfirmed md}"
  by (induction xs arbitrary: acc)
     (auto simp: checkUnconfirmed_def GetCachedMessageMetadataOrNil_def split: option.splits)

lemma checkUnconfirmed_distinct:
  "distinct acc \<Longrightarrow> distinct (fold (checkUnconfirmed w) xs acc)"
  by (induction xs arbitrary: acc)
     (auto simp: checkUnconfirmed_def GetCachedMessageMetadataOrNil_def split: option.splits)

lemma mapAdd_set: "set (fold mapAdd xs acc) = set acc \<union> set xs"
  by (induction xs arbitrary: acc) (auto simp: mapAdd_def)

lemma mapAdd_distinct: "distinct acc \<Longrightarrow> distinct (fold mapAdd xs acc)"
  by (induction xs arbitrary: acc) (auto simp: mapAdd_def)

lemma skipped_iff:
  "skipped en j v \<longleftrightarrow>
     (case milestones v j of None \<Rightarrow> True
      | Some ms \<Rightarrow> snd (TraverseParents en (snd (snd (pruneUnconfirmedMessages j v))) ms) \<noteq> None)"
  by (simp add: skipped_def GetCachedMilestoneOrNil_def pruneUnconfirmedMessages_keeps)

lemma pruneIteration_effect:
  "\<exists>tr. trace (snd (pruneIteration en j s v)) = trace v @ tr \<and>
        unconfirmedPruned tr = [j] \<and>
        completed tr = (if skipped en j v then [] else [j]) \<and>
        snapshotWrites tr = (if skipped en j v then [] else [s\<lparr>PruningIndex := j\<rparr>]) \<and>
        EvRunGarbageCollection \<notin> set tr"
proof (cases "skipped en j v")
  case True
  then show ?thesis
    by (simp add: pruneIteration_trace_skipped unconfirmedPruned_def completed_def snapshotWrites_def)
next
  case False
  from pruneIteration_done(5) [OF False, of s] obtain ms mid where
    tr: "trace (snd (pruneIteration en j s v)) =
       trace v @ [EvPruneMessages (fold (checkUnconfirmed v) (unconfirmedMessages v j) []),
                  EvDeleteUnconfirmedMessages j] @ mid @
         [EvPruneMessages (fold mapAdd (fst (TraverseParents en (snd (snd (pruneUnconfirmedMessages j v))) ms)) []),
          EvSetSnapshotInfo (s\<lparr>PruningIndex := j\<rparr>), EvPruningMilestoneIndexChanged j]"
    and mid: "set mid \<subseteq> {EvPruneMilestoneIndex j, EvDeleteMilestone j}" by blast
  have m: "unconfirmedPruned mid = [] \<and> completed mid = [] \<and> snapshotWrites mid = [] \<and>
           EvRunGarbageCollection \<notin> set mid" using mid
    by (induction mid) (auto simp: unconfirmedPruned_def completed_def snapshotWrites_def)
  show ?thesis using m False
    by (simp add: tr unconfirmedPruned_def completed_def snapshotWrites_def)
qed

lemma pruneIteration_local:
  "fst (pruneIteration en j s v) = (if skipped en j v then s else s\<lparr>PruningIndex := j\<rparr>)"
  by (simp add: pruneIteration_trace_skipped pruneIteration_done)

lemma index_pred: "(i::index) < k \<Longrightarrow> unat (k - 1) + 1 = unat k"
proof -
  assume "i < k"
  then have "k \<noteq> 0" by (auto simp: word_less_nat_alt)
  then have "unat (k - 1) = unat k - 1" by (rule unat_minus_one)
  moreover have "unat k \<noteq> 0" using \<open>k \<noteq> 0\<close> by (simp add: unat_eq_zero)
  ultimately show ?thesis by simp
qed

lemma last_completed_iff:
  fixes p p0 k :: index
  assumes a: "p = last (p0 # c)"
    and b: "\<forall>i \<in> set c. p0 < i \<and> i \<le> p"
    and c: "p < k" and d: "p0 < k" and e: "p0 \<le> p"
  shows "p = k - 1 \<longleftrightarrow> k = p0 + 1 \<or> k - 1 \<in> set c"
proof
  assume pk: "p = k - 1"
  show "k = p0 + 1 \<or> k - 1 \<in> set c"
  proof (cases "c = []")
    case True
    then have "p = p0" using a by simp
    then have "p0 = k - 1" using pk by simp
    then have "k = p0 + 1" by simp
    then show ?thesis by blast
  next
    case False
    then have "last c = p" using a by simp
    then have "p \<in> set c" using False last_in_set by metis
    then show ?thesis using pk by simp
  qed
next
  assume h: "k = p0 + 1 \<or> k - 1 \<in> set c"
  have uk: "unat (k - 1) + 1 = unat k" using d by (rule index_pred)
  have up: "unat p < unat k" using c by (simp add: word_less_nat_alt)
  from h show "p = k - 1"
  proof
    assume "k = p0 + 1"
    then have "k - 1 = p0" by simp
    then have "unat p0 + 1 = unat k" using uk by simp
    moreover have "unat p0 \<le> unat p" using e by (simp add: word_le_nat_alt)
    ultimately have "unat p = unat p0" using up by simp
    then have "p = p0" by (simp add: word_unat_eq_iff)
    then show ?thesis using \<open>k - 1 = p0\<close> by simp
  next
    assume "k - 1 \<in> set c"
    then have "k - 1 \<le> p" using b by blast
    then have "unat (k - 1) \<le> unat p" by (simp add: word_le_nat_alt)
    then have "unat p = unat (k - 1)" using up uk by simp
    then show ?thesis by (simp add: word_unat_eq_iff)
  qed
qed

lemma pruneLoop_exit:
  "\<not> k \<le> t \<Longrightarrow> pruneLoop en a t k s v = Some (Return None, RunGarbageCollection v)"
  by (subst pruneLoop.simps) simp

lemma pruneLoop_abort:
  "k \<le> t \<Longrightarrow> a k \<Longrightarrow> pruneLoop en a t k s v = Some (Return (Some ErrPruningAborted), v)"
  by (subst pruneLoop.simps) simp

lemma pruneLoop_step:
  "k \<le> t \<Longrightarrow> \<not> a k \<Longrightarrow>
   pruneLoop en a t k s v =
     pruneLoop en a t (k + 1) (fst (pruneIteration en k s v)) (snd (pruneIteration en k s v))"
  by (subst pruneLoop.simps) simp

lemmas run_defs = pruneDatabase_def pruneDatabaseRun_def recomputeSolidEntryPoints_def
  stateBeforeLoop_def clampTargetIndex_def targetIndexMax_def AdditionalPruningThreshold_def
  pruneIteration_def pruneUnconfirmedMessages_def pruneMessages_def pruneMessage_def
  pruneMilestone_def checkUnconfirmed_def mapAdd_def prim_defs Let_def

lemma pruneIteration_milestones:
  "i \<noteq> j \<Longrightarrow> milestones (snd (pruneIteration en j s v)) i = milestones v i"
  by (auto simp: pruneIteration_def Let_def split_beta pruneMessages_keeps
        pruneMilestone_keeps pruneUnconfirmedMessages_keeps SetSnapshotInfo_def emit_def
      split: option.splits)

lemma pruneIteration_frame:
  "solidEntryPoints (snd (pruneIteration en j s v)) = solidEntryPoints v"
  "unconfirmedMessages (snd (pruneIteration en j s v)) = (unconfirmedMessages v)(j := [])"
  by (cases "skipped en j v"; simp add: pruneIteration_trace_skipped pruneIteration_done)+

lemma index_of_unat: "(of_nat (unat (j::index)) :: index) = j" by simp

lemma indexRange_Cons:
  "(a::index) \<le> b \<Longrightarrow> unat b < 2^32 - 1 \<Longrightarrow> indexRange a b = a # indexRange (a + 1) b"
proof -
  assume le: "a \<le> b" and fin: "unat b < 2^32 - 1"
  have u: "unat (a + 1) = unat a + 1" using le fin by (rule index_succ)
  have "unat a < unat b + 1" using le by (simp add: word_le_nat_alt)
  then have "[unat a ..< unat b + 1] = unat a # [unat a + 1 ..< unat b + 1]"
    by (simp add: upt_conv_Cons)
  then show ?thesis by (simp add: indexRange_def u)
qed

lemma indexRange_Nil: "\<not> (a::index) \<le> b \<Longrightarrow> indexRange a b = []"
  by (simp add: indexRange_def word_le_nat_alt)

lemma indexRange_snoc:
  "(p::index) < a \<Longrightarrow> a \<le> b \<Longrightarrow> indexRange a b = indexRange a (b - 1) @ [b]"
proof -
  assume pa: "p < a" and le: "a \<le> b"
  have "p < b" using pa le by (rule order_less_le_trans)
  then have ub: "unat (b - 1) + 1 = unat b" by (rule index_pred)
  have ab: "unat a \<le> unat b" using le by (simp add: word_le_nat_alt)
  have 1: "indexRange a (b - 1) = map of_nat [unat a ..< unat b]"
    by (simp only: indexRange_def ub)
  have 2: "indexRange a b = map of_nat [unat a ..< unat b] @ [b]"
    using ab by (simp add: indexRange_def)
  show ?thesis by (simp only: 1 2)
qed

lemma indexRange_set:
  "j \<in> set (indexRange a b) \<Longrightarrow> a \<le> j \<and> j \<le> b"
proof -
  assume "j \<in> set (indexRange a b)"
  then obtain n where n: "unat a \<le> n" "n < unat b + 1" and j: "j = of_nat n"
    by (auto simp: indexRange_def)
  have "unat b < 2 ^ 32" using unsigned_less [of b] by simp
  then have "n < 2 ^ 32" using n by simp
  then have "unat j = n" unfolding j by (simp add: of_nat_inverse)
  then show ?thesis using n by (simp add: word_le_nat_alt)
qed

lemma runPasses_Nil: "runPasses en [] sv = sv"
  by (simp add: runPasses_def)

lemma runPasses_Cons:
  "runPasses en (j # js) (s, v) = runPasses en js (pruneIteration en j s v)"
  by (simp add: runPasses_def)

lemma runPasses_snoc:
  "runPasses en (js @ [j]) sv =
     pruneIteration en j (fst (runPasses en js sv)) (snd (runPasses en js sv))"
  by (simp add: runPasses_def split_beta)

lemma pruneLoop_eq:
  assumes fin: "unat t < 2^32 - 1"
  shows "pruneLoop en a t k0 s v =
     Some (if \<exists>j \<in> set (indexRange k0 t). a j
           then (Return (Some ErrPruningAborted), snd (runPasses en (passesRun a k0 t) (s, v)))
           else (Return None, RunGarbageCollection (snd (runPasses en (passesRun a k0 t) (s, v)))))"
proof (induction "unat t + 1 - unat k0" arbitrary: k0 s v)
  case 0
  then have "\<not> k0 \<le> t" by (simp add: word_le_nat_alt)
  then show ?case
    by (simp add: pruneLoop_exit indexRange_Nil passesRun_def runPasses_Nil)
next
  case (Suc n)
  show ?case
  proof (cases "k0 \<le> t")
    case False
    then show ?thesis
      by (simp add: pruneLoop_exit indexRange_Nil passesRun_def runPasses_Nil)
  next
    case le: True
    have r: "indexRange k0 t = k0 # indexRange (k0 + 1) t" using le fin by (rule indexRange_Cons)
    show ?thesis
    proof (cases "a k0")
      case True
      then show ?thesis using le
        by (simp add: pruneLoop_abort r passesRun_def runPasses_Nil)
    next
      case False
      have u: "unat (k0 + 1) = unat k0 + 1" using le fin by (rule index_succ)
      have n: "n = unat t + 1 - unat (k0 + 1)" using Suc.hyps(2) u by simp
      have p: "passesRun a k0 t = k0 # passesRun a (k0 + 1) t"
        using False by (simp add: passesRun_def r)
      show ?thesis
        using Suc.hyps(1) [OF n, of "fst (pruneIteration en k0 s v)" "snd (pruneIteration en k0 s v)"]
          le False
        by (simp add: pruneLoop_step p runPasses_Cons r)
    qed
  qed
qed

lemma passesRun_first_abort:
  assumes fin: "unat t < 2^32 - 1"
    and k: "p < k" "k \<le> t" and ab: "a k"
    and before: "\<forall>j. p < j \<and> j < k \<longrightarrow> \<not> a j"
  shows "passesRun a (p + 1) t = indexRange (p + 1) (k - 1)"
    and "\<exists>j \<in> set (indexRange (p + 1) t). a j"
proof -
  have pt: "p \<le> t" using k by (simp add: order_less_imp_le order_less_le_trans)
  have up: "unat (p + 1) = unat p + 1" using pt fin by (rule index_succ)
  have uk: "unat (k - 1) + 1 = unat k" using k(1) by (rule index_pred)
  have pk: "unat p < unat k" using k(1) by (simp add: word_less_nat_alt)
  have kt: "unat k \<le> unat t" using k(2) by (simp add: word_le_nat_alt)
  have "[unat p + 1 ..< unat k + (unat t + 1 - unat k)] =
        [unat p + 1 ..< unat k] @ [unat k ..< unat k + (unat t + 1 - unat k)]"
    using pk by (intro upt_add_eq_append) simp
  moreover have "unat k + (unat t + 1 - unat k) = unat t + 1" using kt by simp
  moreover have "[unat k ..< unat t + 1] = unat k # [unat k + 1 ..< unat t + 1]"
    using kt by (simp add: upt_conv_Cons)
  ultimately have
    "[unat p + 1 ..< unat t + 1] = [unat p + 1 ..< unat k] @ unat k # [unat k + 1 ..< unat t + 1]"
    by simp
  note H = this
  have 1: "indexRange (p + 1) t = map of_nat [unat p + 1 ..< unat t + 1]"
    by (simp only: indexRange_def up)
  have 2: "indexRange (p + 1) (k - 1) = map of_nat [unat p + 1 ..< unat k]"
    by (simp only: indexRange_def up uk)
  have split: "indexRange (p + 1) t =
      indexRange (p + 1) (k - 1) @ k # map of_nat [unat k + 1 ..< unat t + 1]"
    by (simp only: 1 2 H map_append list.map index_of_unat)
  have all: "\<And>j. j \<in> set (indexRange (p + 1) (k - 1)) \<Longrightarrow> \<not> a j"
  proof -
    fix j assume "j \<in> set (indexRange (p + 1) (k - 1))"
    then have "p + 1 \<le> j" "j \<le> k - 1" using indexRange_set by blast+
    then have "unat p + 1 \<le> unat j" "unat j + 1 \<le> unat k"
      using up uk by (simp_all add: word_le_nat_alt)
    then have "p < j \<and> j < k" by (simp add: word_less_nat_alt)
    then show "\<not> a j" using before by blast
  qed
  show "passesRun a (p + 1) t = indexRange (p + 1) (k - 1)"
    unfolding passesRun_def split using all ab by (simp add: takeWhile_append2)
  show "\<exists>j \<in> set (indexRange (p + 1) t). a j"
    unfolding split using ab by auto
qed

lemma abort_stops_run_events:
  assumes fit: "constantsFit en"
    and si: "GetSnapshotInfo w = Some si"
    and pass: "checksPass en targetIndex si"
    and ok: "snd (walkerResult en (clampTargetIndex en si targetIndex) abortSignal w) = None"
    and k: "PruningIndex si < k" "k \<le> clampTargetIndex en si targetIndex"
    and ab: "abortSignal k"
    and before: "\<forall>j. PruningIndex si < j \<and> j < k \<longrightarrow> \<not> abortSignal j"
  shows "\<exists>w' s. pruneDatabase en targetIndex abortSignal w = Some (Return (Some ErrPruningAborted), w') \<and>
           GetSnapshotInfo w' = Some s \<and>
           EntryPointIndex s = clampTargetIndex en si targetIndex \<and>
           PruningIndex s = last (PruningIndex si # completed (newEvents w w')) \<and>
           PruningIndex si \<le> PruningIndex s \<and> PruningIndex s < k \<and>
           (PruningIndex s = k - 1 \<longleftrightarrow>
              k = PruningIndex si + 1 \<or> k - 1 \<in> set (completed (newEvents w w'))) \<and>
           unconfirmedPruned (newEvents w w') =
             PruningIndex si # indexRange (PruningIndex si + 1) (k - 1) \<and>
           EvRunGarbageCollection \<notin> set (newEvents w w')"
proof -
  define t where "t = clampTargetIndex en si targetIndex"
  define p0 where "p0 = PruningIndex si"
  have fin: "unat t < 2^32 - 1"
    unfolding t_def using checksPass_bounds [OF fit pass] by blast
  have lt: "p0 < t" unfolding t_def p0_def by (rule checksPass_lt [OF pass])
  have run: "pruneDatabase en targetIndex abortSignal w = pruneDatabaseRun en t abortSignal si w"
    unfolding t_def by (rule pruneDatabase_run [OF si pass])
  define I where "I = (\<lambda>(j::index) (s::SnapshotInfo) (v::world).
      snapshotInfo v = Some s \<and> EntryPointIndex s = t \<and> p0 < j \<and>
      p0 \<le> PruningIndex s \<and> PruningIndex s < j \<and>
      (\<forall>i. p0 < i \<and> i < j \<longrightarrow> \<not> abortSignal i) \<and>
      (\<exists>tr. trace v = trace w @ tr \<and> PruningIndex s = last (p0 # completed tr) \<and>
         (\<forall>i \<in> set (completed tr). p0 < i \<and> i \<le> PruningIndex s) \<and>
         unconfirmedPruned tr = p0 # map of_nat [unat (p0 + 1) ..< unat j] \<and>
         EvRunGarbageCollection \<notin> set tr))"
  have u0: "unat (p0 + 1) = unat p0 + 1"
    using lt fin by (intro index_succ [of _ t]) simp_all
  have l0: "p0 < p0 + 1" using u0 by (simp add: word_less_nat_alt)
  have n0: "\<not> (p0 < i \<and> i < p0 + 1)" for i by (simp add: word_less_nat_alt u0)
  have init: "I (PruningIndex si + 1) (si\<lparr>EntryPointIndex := t\<rparr>) (stateBeforeLoop en t abortSignal si w)"
    using l0 n0
    by (auto simp: I_def stateBeforeLoop_keeps unconfirmedPruned_def completed_def p0_def [symmetric])
  have step: "I (j + 1) (fst (pruneIteration en j s v)) (snd (pruneIteration en j s v))"
    if i: "I j s v" and j: "j \<le> t" and nab: "\<not> abortSignal j" for j s v
  proof -
    have u: "unat (j + 1) = unat j + 1" using j fin by (rule index_succ)
    have ls: "\<And>i. i < j + 1 \<longleftrightarrow> i \<le> j" using j fin by (rule index_less_succ)
    have pj: "p0 < j" and sv: "snapshotInfo v = Some s" and ep: "EntryPointIndex s = t"
      and ps: "p0 \<le> PruningIndex s" "PruningIndex s < j"
      and nb: "\<forall>i. p0 < i \<and> i < j \<longrightarrow> \<not> abortSignal i"
      using i by (simp_all add: I_def)
    from i obtain tr where tr: "trace v = trace w @ tr"
      and lc: "PruningIndex s = last (p0 # completed tr)"
      and cb: "\<forall>i \<in> set (completed tr). p0 < i \<and> i \<le> PruningIndex s"
      and up: "unconfirmedPruned tr = p0 # map of_nat [unat (p0 + 1) ..< unat j]"
      and gc: "EvRunGarbageCollection \<notin> set tr"
      by (auto simp: I_def)
    from pruneIteration_effect [of en j s v] obtain tr' where
      tr': "trace (snd (pruneIteration en j s v)) = trace v @ tr'"
      and up': "unconfirmedPruned tr' = [j]"
      and co': "completed tr' = (if skipped en j v then [] else [j])"
      and gc': "EvRunGarbageCollection \<notin> set tr'"
      by blast
    have upj: "unat (p0 + 1) \<le> unat j" using pj u0 by (simp add: word_less_nat_alt)
    have 1: "unconfirmedPruned (tr @ tr') = p0 # map of_nat [unat (p0 + 1) ..< unat (j + 1)]"
      using up up' upj by (simp add: unconfirmedPruned_def u)
    have 2: "completed (tr @ tr') = completed tr @ (if skipped en j v then [] else [j])"
      using co' by (simp add: completed_def)
    have 3: "\<forall>i. p0 < i \<and> i < j + 1 \<longrightarrow> \<not> abortSignal i"
      using nb nab by (auto simp: ls order_le_less)
    have 4: "snapshotInfo (snd (pruneIteration en j s v)) = Some (fst (pruneIteration en j s v))"
         "EntryPointIndex (fst (pruneIteration en j s v)) = t"
      using pruneIteration_snapshotInfo [OF sv, of en j] ep by simp_all
    have 5: "p0 < j + 1" "j < j + 1" using pj by (simp_all add: ls order_less_imp_le)
    show ?thesis
    proof (cases "skipped en j v")
      case True
      have "PruningIndex s < j + 1" using ps by (simp add: ls order_less_imp_le)
      then show ?thesis
        unfolding I_def using True 1 2 3 4 5 ps lc cb gc gc' tr tr'
        by (auto simp: pruneIteration_local)
    next
      case False
      have "\<forall>i \<in> set (completed tr). p0 < i \<and> i \<le> j"
        using cb ps by (auto intro: order_less_imp_le order_le_less_trans)
      then show ?thesis
        unfolding I_def using False 1 2 3 4 5 pj gc gc' tr tr'
        by (auto simp: pruneIteration_local order_less_imp_le)
    qed
  qed
  from pruneDatabaseRun_rule [of t en abortSignal w I si, OF fin ok [folded t_def] init step]
  obtain r w' where
    r: "pruneDatabaseRun en t abortSignal si w = Some (r, setIsPruning False w')"
    and p: "(r = Return (Some ErrPruningAborted) \<and> (\<exists>j s. j \<le> t \<and> abortSignal j \<and> I j s w'))
            \<or> (r = Return None \<and> (\<exists>j s v. \<not> j \<le> t \<and> I j s v \<and> w' = RunGarbageCollection v))"
    by blast
  have kt: "k \<le> t" and pk: "p0 < k" using k by (simp_all add: t_def p0_def)
  have "\<not> (\<exists>j s v. \<not> j \<le> t \<and> I j s v)"
  proof
    assume "\<exists>j s v. \<not> j \<le> t \<and> I j s v"
    then obtain j s v where "\<not> j \<le> t" and i: "I j s v" by blast
    then have "k < j" using kt by (simp add: not_le order_le_less_trans)
    then have "\<not> abortSignal k" using i pk by (simp add: I_def)
    then show False using ab by simp
  qed
  with p obtain j s where ra: "r = Return (Some ErrPruningAborted)"
    and aj: "abortSignal j" and i: "I j s w'" by blast
  have jk: "j = k"
  proof -
    have "\<not> k < j" using i pk ab by (auto simp: I_def)
    moreover have "\<not> j < k" using before aj i by (auto simp: I_def p0_def)
    ultimately show ?thesis by (simp add: not_less order_antisym)
  qed
  from i obtain tr where tr: "trace w' = trace w @ tr"
      and lc: "PruningIndex s = last (p0 # completed tr)"
      and cb: "\<forall>i \<in> set (completed tr). p0 < i \<and> i \<le> PruningIndex s"
      and up: "unconfirmedPruned tr = p0 # map of_nat [unat (p0 + 1) ..< unat j]"
      and gc: "EvRunGarbageCollection \<notin> set tr"
      and sv: "snapshotInfo w' = Some s" and ep: "EntryPointIndex s = t"
      and ps: "p0 \<le> PruningIndex s" "PruningIndex s < j"
    by (auto simp: I_def)
  have ne: "newEvents w (setIsPruning False w') = tr @ [EvSetIsPruning False]"
    by (simp add: newEvents_def setIsPruning_keeps tr)
  have c: "completed (newEvents w (setIsPruning False w')) = completed tr"
    by (simp add: ne completed_def)
  have "unat (k - 1) + 1 = unat k" using pk by (rule index_pred)
  then have u: "unconfirmedPruned (newEvents w (setIsPruning False w')) = p0 # indexRange (p0 + 1) (k - 1)"
    using up jk by (simp add: ne unconfirmedPruned_def indexRange_def)
  have iff: "PruningIndex s = k - 1 \<longleftrightarrow> k = p0 + 1 \<or> k - 1 \<in> set (completed tr)"
    using last_completed_iff [OF lc cb _ pk ps(1)] ps(2) jk by simp
  have g: "GetSnapshotInfo (setIsPruning False w') = Some s"
    using sv by (simp add: GetSnapshotInfo_def setIsPruning_keeps)
  have "EvRunGarbageCollection \<notin> set (newEvents w (setIsPruning False w'))"
    using gc by (simp add: ne)
  then show ?thesis
    using run r ra g ep lc ps jk iff u c unfolding t_def [symmetric] p0_def [symmetric]
    by auto
qed

lemma pruneDatabaseRun_ok:
  "snd (walkerResult en t a w) = None \<Longrightarrow>
   pruneDatabaseRun en t a si w =
     map_option (\<lambda>(r, w'). (r, setIsPruning False w'))
       (pruneLoop en a t (PruningIndex si + 1) (si\<lparr>EntryPointIndex := t\<rparr>)
          (stateBeforeLoop en t a si w))"
  using recompute_keeps(1) [of en t a w]
  by (cases "recomputeSolidEntryPoints en t a (setIsPruning True w)")
     (simp add: pruneDatabaseRun_def Let_def)

lemma runPasses_snapshotInfo:
  "snapshotInfo v = Some s \<Longrightarrow>
   snapshotInfo (snd (runPasses en js (s, v))) = Some (fst (runPasses en js (s, v))) \<and>
   EntryPointIndex (fst (runPasses en js (s, v))) = EntryPointIndex s \<and>
   (PruningIndex (fst (runPasses en js (s, v))) = PruningIndex s \<or>
    PruningIndex (fst (runPasses en js (s, v))) \<in> set js)"
proof (induction js arbitrary: s v)
  case Nil
  then show ?case by (simp add: runPasses_Nil)
next
  case (Cons j js)
  let ?s = "fst (pruneIteration en j s v)" and ?v = "snd (pruneIteration en j s v)"
  have 1: "snapshotInfo ?v = Some ?s" "EntryPointIndex ?s = EntryPointIndex s"
    using pruneIteration_snapshotInfo [OF Cons.prems, of en j] by simp_all
  have 2: "PruningIndex ?s = PruningIndex s \<or> PruningIndex ?s = j"
    by (simp add: pruneIteration_local)
  have r: "runPasses en (j # js) (s, v) = runPasses en js (?s, ?v)"
    by (simp add: runPasses_Cons)
  from Cons.IH [OF 1(1)] 1(2) 2 show ?case unfolding r by auto
qed

lemma candidatesOf_fold:
  "set (fold (checkUnconfirmed v) (unconfirmedMessages v j) []) = candidatesOf j v"
  by (auto simp: checkUnconfirmed_set candidatesOf_def GetUnconfirmedMessageIDs_def
        GetCachedMessageMetadataOrNil_def split: option.splits)

lemma pruneIteration_deletions:
  "\<exists>tr. trace (snd (pruneIteration en j s v)) = trace v @ tr \<and>
     map set (deletionSets tr) =
       candidatesOf j v # (if skipped en j v then [] else [visitedBy en j v])"
proof (cases "skipped en j v")
  case True
  then show ?thesis
    by (simp add: pruneIteration_trace_skipped deletionSets_def candidatesOf_fold)
next
  case False
  from pruneIteration_done(5) [OF False, of s] obtain ms mid where
    ms: "milestones v j = Some ms" and
    tr: "trace (snd (pruneIteration en j s v)) =
       trace v @ [EvPruneMessages (fold (checkUnconfirmed v) (unconfirmedMessages v j) []),
                  EvDeleteUnconfirmedMessages j] @ mid @
         [EvPruneMessages (fold mapAdd (fst (TraverseParents en (snd (snd (pruneUnconfirmedMessages j v))) ms)) []),
          EvSetSnapshotInfo (s\<lparr>PruningIndex := j\<rparr>), EvPruningMilestoneIndexChanged j]"
    and mid: "set mid \<subseteq> {EvPruneMilestoneIndex j, EvDeleteMilestone j}" by blast
  have m: "deletionSets mid = []" using mid
    by (induction mid) (auto simp: deletionSets_def)
  have vb: "visitedBy en j v = set (fst (TraverseParents en (snd (snd (pruneUnconfirmedMessages j v))) ms))"
    using ms by (simp add: visitedBy_def GetCachedMilestoneOrNil_def pruneUnconfirmedMessages_keeps)
  show ?thesis using m False
    unfolding tr by (simp add: deletionSets_def candidatesOf_fold mapAdd_set vb)
qed

lemma runPasses_deletions:
  "\<exists>tr. trace (snd (runPasses en js (s, v))) = trace v @ tr \<and>
     map set (deletionSets tr) = expectedDeletions en js (s, v) \<and>
     solidEntryPoints (snd (runPasses en js (s, v))) = solidEntryPoints v"
proof (induction js arbitrary: s v)
  case Nil
  then show ?case by (simp add: runPasses_Nil deletionSets_def)
next
  case (Cons j js)
  let ?s = "fst (pruneIteration en j s v)" and ?v = "snd (pruneIteration en j s v)"
  from pruneIteration_deletions [of en j s v] obtain tr1 where
    1: "trace ?v = trace v @ tr1"
       "map set (deletionSets tr1) = candidatesOf j v # (if skipped en j v then [] else [visitedBy en j v])"
    by (elim exE conjE)
  from Cons.IH [of ?s ?v] obtain tr2 where
    2: "trace (snd (runPasses en js (?s, ?v))) = trace ?v @ tr2"
       "map set (deletionSets tr2) = expectedDeletions en js (?s, ?v)"
       "solidEntryPoints (snd (runPasses en js (?s, ?v))) = solidEntryPoints ?v"
    by blast
  have r: "runPasses en (j # js) (s, v) = runPasses en js (?s, ?v)"
    by (simp add: runPasses_Cons)
  have "map set (deletionSets (tr1 @ tr2)) = expectedDeletions en (j # js) (s, v)"
    using 1(2) 2(2) by (simp add: deletionSets_def)
  then show ?case
    unfolding r using 1(1) 2(1) 2(3)
    by (intro exI [of _ "tr1 @ tr2"]) (simp add: pruneIteration_frame)
qed

section \<open>The claims\<close>

text \<open>
  Claim C1, on the code. The walker of \<open>failingWalkerEnv\<close> hands one solid entry point to
  the consumer and then returns an error. \<open>pruneDatabase\<close> returns that error and leaves
  the retention state as it was (\<open>EntryPointIndex\<close> is still 0), but
  \<open>StoreSolidEntryPoints\<close> has run before the error is looked at: the stored set, which
  was the one of the snapshot, is now the one entry the walker got to.
\<close>

theorem walker_error_stores_partial_set:
  "storedSolidEntryPoints exampleWorld = [(''genesis'', 0)] \<and>
   map_option (\<lambda>(r, w'). (r, storedSolidEntryPoints w', GetSnapshotInfo w'))
     (pruneDatabase failingWalkerEnv 60 neverAborted exampleWorld) =
   Some (Return (Some (ErrOther ''walker'')), [(''partial'', 60)],
         Some \<lparr>SnapshotIndex = 200, EntryPointIndex = 0, PruningIndex = 0\<rparr>)"
  by (simp add: run_defs failingWalkerEnv_def exampleEnv_def exampleWorld_def)

text \<open>
  Claim C2, as stated, fails. In the run below the walker yields \<open>m0\<close> as the solid entry
  point, milestone 2 is \<open>m2\<close> whose parent is \<open>m0\<close>, and the run is aborted at the pass for
  milestone 3. The traversal for milestone 2 is asked to traverse solid entry points, so
  the deletion set of that pass is \<open>m2\<close> and \<open>m0\<close>: a member of the set the same run
  computed.
\<close>

theorem solid_entry_point_deleted:
  "map_option (\<lambda>(r, w'). (r, deletionSets (newEvents exampleWorld w'), solidEntryPoints w'))
     (pruneDatabase exampleEnv 60 (abortedAt 3) exampleWorld) =
   Some (Return (Some ErrPruningAborted), [[], [''u1''], [''u2''], [''m2'', ''m0'']], [(''m0'', 60)])"
  by (simp add: run_defs exampleEnv_def exampleWorld_def abortedAt_def
        pruneLoop_step pruneLoop_abort newEvents_def deletionSets_def)

text \<open>
  Claim C2, amended. \<open>pruneDatabase\<close> does not filter its deletion sets against the
  solid entry points. Every call returns, and the deletion sets it handed to
  \<open>pruneMessages\<close> are, in order and as sets, exactly these: none when a check fails or
  the walker returns an error; otherwise the still-unconfirmed candidates of
  \<open>PruningIndex\<close>, and then for each pass that ran, the still-unconfirmed candidates of
  its milestone and, unless the pass was skipped, everything the traversal of the cone
  of that milestone visited, solid entry points included. The solid entry points after
  a run whose checks passed are those the walker yielded. So no member of that set is in
  a deletion set of the run exactly when none is among those candidates and visited
  cones.
\<close>

theorem deletion_sets_unfiltered:
  fixes en targetIndex abortSignal w si
  defines "t \<equiv> clampTargetIndex en si targetIndex"
  defines "S \<equiv> fst ` set (fst (walkerResult en t abortSignal w))"
  defines "expected \<equiv>
    (if checksPass en targetIndex si \<and> snd (walkerResult en t abortSignal w) = None
     then candidatesOf (PruningIndex si) w #
          expectedDeletions en (passesRun abortSignal (PruningIndex si + 1) t)
            (si\<lparr>EntryPointIndex := t\<rparr>, stateBeforeLoop en t abortSignal si w)
     else [])"
  assumes fit: "constantsFit en"
    and si: "GetSnapshotInfo w = Some si"
  shows "\<exists>r w'. pruneDatabase en targetIndex abortSignal w = Some (r, w') \<and>
           map set (deletionSets (newEvents w w')) = expected \<and>
           (checksPass en targetIndex si \<longrightarrow> fst ` set (solidEntryPoints w') = S) \<and>
           ((\<forall>ids \<in> set (deletionSets (newEvents w w')). set ids \<inter> S = {}) \<longleftrightarrow>
            (\<forall>D \<in> set expected. D \<inter> S = {}))"
proof -
  have main: "\<exists>r w'. pruneDatabase en targetIndex abortSignal w = Some (r, w') \<and>
           map set (deletionSets (newEvents w w')) = expected \<and>
           (checksPass en targetIndex si \<longrightarrow> fst ` set (solidEntryPoints w') = S)"
  proof (cases "checksPass en targetIndex si")
    case False
    from pruneDatabase_rejected [OF si False] obtain e where
      "pruneDatabase en targetIndex abortSignal w = Some (Return (Some e), w)" by blast
    then show ?thesis using False by (simp add: newEvents_same deletionSets_def expected_def)
  next
    case True
    have fin: "unat t < 2^32 - 1"
      unfolding t_def using checksPass_bounds [OF fit True] by blast
    have run: "pruneDatabase en targetIndex abortSignal w = pruneDatabaseRun en t abortSignal si w"
      unfolding t_def by (rule pruneDatabase_run [OF si True])
    show ?thesis
    proof (cases "snd (walkerResult en t abortSignal w)")
      case (Some e)
      let ?w' = "setIsPruning False (snd (recomputeSolidEntryPoints en t abortSignal (setIsPruning True w)))"
      have r: "pruneDatabase en targetIndex abortSignal w = Some (Return (Some e), ?w')"
        using run pruneDatabaseRun_walker_error [OF Some] by simp
      have "deletionSets (newEvents w ?w') = []"
        by (simp add: newEvents_def setIsPruning_keeps recompute_keeps deletionSets_def)
      moreover have "fst ` set (solidEntryPoints ?w') = S"
        by (simp add: setIsPruning_keeps recompute_keeps S_def)
      ultimately show ?thesis using r Some by (simp add: expected_def)
    next
      case None
      define si1 where "si1 = si\<lparr>EntryPointIndex := t\<rparr>"
      define sbl where "sbl = stateBeforeLoop en t abortSignal si w"
      define js where "js = passesRun abortSignal (PruningIndex si + 1) t"
      define v where "v = snd (runPasses en js (si1, sbl))"
      from runPasses_deletions [of en js si1 sbl] obtain tr where
        tr: "trace v = trace sbl @ tr"
        and ds: "map set (deletionSets tr) = expectedDeletions en js (si1, sbl)"
        and sp: "solidEntryPoints v = solidEntryPoints sbl"
        unfolding v_def by blast
      have ex: "expected = candidatesOf (PruningIndex si) w # expectedDeletions en js (si1, sbl)"
        using True None by (simp add: expected_def js_def si1_def sbl_def)
      have c0: "set (fold (checkUnconfirmed w) (unconfirmedMessages w (PruningIndex si)) []) =
                candidatesOf (PruningIndex si) w"
        by (rule candidatesOf_fold)
      have pre: "\<exists>tr0. trace sbl = trace w @ tr0 \<and>
                   map set (deletionSets tr0) = [candidatesOf (PruningIndex si) w]"
        unfolding sbl_def
        by (subst stateBeforeLoop_keeps(5)) (simp add: deletionSets_def c0)
      then obtain tr0 where tr0: "trace sbl = trace w @ tr0"
        and d0: "map set (deletionSets tr0) = [candidatesOf (PruningIndex si) w]"
        by (elim exE conjE)
      have S: "fst ` set (solidEntryPoints v) = S"
        by (simp add: sp sbl_def stateBeforeLoop_keeps S_def)
      have "\<exists>r w''. pruneLoop en abortSignal t (PruningIndex si + 1) si1 sbl = Some (r, w'') \<and>
              (w'' = v \<or> w'' = RunGarbageCollection v)"
        by (cases "\<exists>j \<in> set (indexRange (PruningIndex si + 1) t). abortSignal j")
           (simp_all add: pruneLoop_eq [OF fin] v_def js_def)
      then obtain r w'' where loop: "pruneLoop en abortSignal t (PruningIndex si + 1) si1 sbl = Some (r, w'')"
        and w'': "w'' = v \<or> w'' = RunGarbageCollection v"
        by (elim exE conjE)
      have res: "pruneDatabase en targetIndex abortSignal w = Some (r, setIsPruning False w'')"
        using loop pruneDatabaseRun_ok [OF None, of si]
        by (simp add: run si1_def sbl_def)
      from w'' obtain post where
        t'': "trace (setIsPruning False w'') = trace w @ tr0 @ tr @ post" and
        dp: "deletionSets post = []" and
        s'': "solidEntryPoints (setIsPruning False w'') = solidEntryPoints v"
        by (auto simp: setIsPruning_keeps RunGarbageCollection_keeps tr tr0 deletionSets_def)
      have ne: "newEvents w (setIsPruning False w'') = tr0 @ tr @ post"
        by (simp add: newEvents_def t'')
      have "map set (deletionSets (newEvents w (setIsPruning False w''))) = expected"
        using d0 ds dp unfolding ne ex by (simp add: deletionSets_def)
      then show ?thesis using res S s'' by simp
    qed
  qed
  then obtain r w' where
    1: "pruneDatabase en targetIndex abortSignal w = Some (r, w')"
    and 2: "map set (deletionSets (newEvents w w')) = expected"
    and 3: "checksPass en targetIndex si \<longrightarrow> fst ` set (solidEntryPoints w') = S"
    by blast
  have "set expected = set ` set (deletionSets (newEvents w w'))"
    using 2 [symmetric] by simp
  then have 4: "(\<forall>ids \<in> set (deletionSets (newEvents w w')). set ids \<inter> S = {}) \<longleftrightarrow>
            (\<forall>D \<in> set expected. D \<inter> S = {})"
    by auto
  show ?thesis
    apply (rule exI [of _ r])
    apply (rule exI [of _ w'])
    apply (intro conjI)
    apply (rule 1 2 3 4)+
    done
qed

theorem deletion_sets_unfiltered_witness:
  "constantsFit exampleEnv \<and> constantsFit keptEnv \<and>
   GetSnapshotInfo exampleWorld = Some \<lparr>SnapshotIndex = 200, EntryPointIndex = 0, PruningIndex = 0\<rparr> \<and>
   checksPass exampleEnv 60 \<lparr>SnapshotIndex = 200, EntryPointIndex = 0, PruningIndex = 0\<rparr> \<and>
   fst (walkerResult exampleEnv 60 (abortedAt 3) exampleWorld) = [(''m0'', 60)] \<and>
   fst (walkerResult keptEnv 60 (abortedAt 3) exampleWorld) = [(''m3'', 60)] \<and>
   (\<exists>r w'. pruneDatabase exampleEnv 60 (abortedAt 3) exampleWorld = Some (r, w') \<and>
      map set (deletionSets (newEvents exampleWorld w')) = [{}, {''u1''}, {''u2''}, {''m2'', ''m0''}] \<and>
      fst ` set (solidEntryPoints w') = {''m0''} \<and>
      (\<exists>ids \<in> set (deletionSets (newEvents exampleWorld w')). ''m0'' \<in> set ids)) \<and>
   (\<exists>r w'. pruneDatabase keptEnv 60 (abortedAt 3) exampleWorld = Some (r, w') \<and>
      map set (deletionSets (newEvents exampleWorld w')) = [{}, {''u1''}, {''u2''}, {''m2'', ''m0''}] \<and>
      fst ` set (solidEntryPoints w') = {''m3''} \<and>
      (\<forall>ids \<in> set (deletionSets (newEvents exampleWorld w')). set ids \<inter> {''m3''} = {}))"
proof -
  let ?si = "\<lparr>SnapshotIndex = 200, EntryPointIndex = 0, PruningIndex = 0\<rparr>"
  have pt: "SolidEntryPointCheckThresholdPast exampleEnv = 50"
           "SolidEntryPointCheckThresholdPast keptEnv = 50"
    by (simp_all add: keptEnv_def exampleEnv_def)
  have fit: "constantsFit exampleEnv" "constantsFit keptEnv"
    by (simp_all add: constantsFit_def pt AdditionalPruningThreshold_def)
  have si: "GetSnapshotInfo exampleWorld = Some ?si"
    by (simp add: exampleWorld_def GetSnapshotInfo_def)
  have c: "clampTargetIndex exampleEnv ?si 60 = 60" "clampTargetIndex keptEnv ?si 60 = 60"
    by (simp_all add: clampTargetIndex_def targetIndexMax_def pt AdditionalPruningThreshold_def)
  have pass: "checksPass exampleEnv 60 ?si" "checksPass keptEnv 60 ?si"
    by (simp_all add: checksPass_def c pt AdditionalPruningThreshold_def)
  have wr: "walkerResult exampleEnv 60 (abortedAt 3) exampleWorld = ([(''m0'', 60)], None)"
           "walkerResult keptEnv 60 (abortedAt 3) exampleWorld = ([(''m3'', 60)], None)"
    by (simp_all add: walkerResult_def keptEnv_def exampleEnv_def)
  have "passesRun (abortedAt 3) (0 + 1) 60 = indexRange (0 + 1) (3 - 1)"
    by (rule passesRun_first_abort) (auto simp: abortedAt_def)
  then have pr: "passesRun (abortedAt 3) (PruningIndex ?si + 1) 60 = [1, 2]"
    by (simp add: indexRange_def upt_conv_Cons)
  have c0: "candidatesOf (PruningIndex ?si) exampleWorld = {}"
    by (simp add: candidatesOf_def GetUnconfirmedMessageIDs_def exampleWorld_def)
  have e1: "expectedDeletions exampleEnv [1, 2]
              (?si\<lparr>EntryPointIndex := 60\<rparr>, stateBeforeLoop exampleEnv 60 (abortedAt 3) ?si exampleWorld) =
            [{''u1''}, {''u2''}, {''m2'', ''m0''}]"
    by (simp add: candidatesOf_def skipped_def visitedBy_def run_defs exampleEnv_def exampleWorld_def)
  have e2: "expectedDeletions keptEnv [1, 2]
              (?si\<lparr>EntryPointIndex := 60\<rparr>, stateBeforeLoop keptEnv 60 (abortedAt 3) ?si exampleWorld) =
            [{''u1''}, {''u2''}, {''m2'', ''m0''}]"
    by (simp add: candidatesOf_def skipped_def visitedBy_def run_defs keptEnv_def exampleEnv_def
          exampleWorld_def)
  from deletion_sets_unfiltered [OF fit(1) si, of 60 "abortedAt 3"]
  have r1: "\<exists>r w'. pruneDatabase exampleEnv 60 (abortedAt 3) exampleWorld = Some (r, w') \<and>
      map set (deletionSets (newEvents exampleWorld w')) = [{}, {''u1''}, {''u2''}, {''m2'', ''m0''}] \<and>
      fst ` set (solidEntryPoints w') = {''m0''} \<and>
      (\<exists>ids \<in> set (deletionSets (newEvents exampleWorld w')). ''m0'' \<in> set ids)"
    unfolding c wr pr e1 c0 using pass(1) by (simp; blast)
  from deletion_sets_unfiltered [OF fit(2) si, of 60 "abortedAt 3"]
  have r2: "\<exists>r w'. pruneDatabase keptEnv 60 (abortedAt 3) exampleWorld = Some (r, w') \<and>
      map set (deletionSets (newEvents exampleWorld w')) = [{}, {''u1''}, {''u2''}, {''m2'', ''m0''}] \<and>
      fst ` set (solidEntryPoints w') = {''m3''} \<and>
      (\<forall>ids \<in> set (deletionSets (newEvents exampleWorld w')). set ids \<inter> {''m3''} = {})"
    unfolding c wr pr e2 c0 using pass(2) by (simp; blast)
  have w1: "fst (walkerResult exampleEnv 60 (abortedAt 3) exampleWorld) = [(''m0'', 60)]"
           "fst (walkerResult keptEnv 60 (abortedAt 3) exampleWorld) = [(''m3'', 60)]"
    by (simp_all add: wr)
  show ?thesis
    apply (intro conjI)
    apply (rule fit si pass w1 r1 r2)+
    done
qed

text \<open>
  Claim C3. A requested \<open>targetIndex\<close> above
  \<open>SnapshotIndex - SolidEntryPointCheckThresholdPast - AdditionalPruningThreshold - 1\<close>
  gives exactly the run of that clamped value, whatever that run does; the excess is not
  an error of its own. With the snapshot at 1000, both thresholds 50, nothing pruned and
  a request for 2000, the target is 899; when the walker succeeds and nobody aborts, the
  run returns nil with \<open>EntryPointIndex\<close> 899, having pruned the unconfirmed messages of
  index 0 up front and then run the passes for milestones 1 to 899, in order.
\<close>

theorem target_clamped:
  "(GetSnapshotInfo w = Some si \<longrightarrow> targetIndex > targetIndexMax en si \<longrightarrow>
      pruneDatabase en targetIndex abortSignal w = pruneDatabase en (targetIndexMax en si) abortSignal w) \<and>
   (GetSnapshotInfo w = Some \<lparr>SnapshotIndex = 1000, EntryPointIndex = 0, PruningIndex = 0\<rparr> \<longrightarrow>
    SolidEntryPointCheckThresholdPast en = 50 \<longrightarrow>
    snd (walkerResult en 899 abortSignal w) = None \<longrightarrow>
    (\<forall>k. \<not> abortSignal k) \<longrightarrow>
      clampTargetIndex en \<lparr>SnapshotIndex = 1000, EntryPointIndex = 0, PruningIndex = 0\<rparr> 2000 = 899 \<and>
      (\<exists>w' s. pruneDatabase en 2000 abortSignal w = Some (Return None, w') \<and>
         GetSnapshotInfo w' = Some s \<and> EntryPointIndex s = 899 \<and>
         unconfirmedPruned (newEvents w w') = 0 # indexRange 1 899))"
proof (intro conjI impI)
  assume "GetSnapshotInfo w = Some si" "targetIndex > targetIndexMax en si"
  then show "pruneDatabase en targetIndex abortSignal w = pruneDatabase en (targetIndexMax en si) abortSignal w"
    by (simp add: pruneDatabase_def clampTargetIndex_def Let_def)
next
  let ?si = "\<lparr>SnapshotIndex = 1000, EntryPointIndex = 0, PruningIndex = 0\<rparr>"
  assume si: "GetSnapshotInfo w = Some ?si"
    and pt: "SolidEntryPointCheckThresholdPast en = 50"
    and ok: "snd (walkerResult en 899 abortSignal w) = None"
    and na: "\<forall>k. \<not> abortSignal k"
  show c: "clampTargetIndex en ?si 2000 = 899"
    using pt by (simp add: clampTargetIndex_def targetIndexMax_def AdditionalPruningThreshold_def)
  have fit: "constantsFit en" using pt by (simp add: constantsFit_def AdditionalPruningThreshold_def)
  have pass: "checksPass en 2000 ?si"
    using pt by (simp add: checksPass_def c AdditionalPruningThreshold_def)
  have ok': "snd (walkerResult en (clampTargetIndex en ?si 2000) abortSignal w) = None"
    using ok c by simp
  have na': "\<forall>k. PruningIndex ?si < k \<and> k \<le> clampTargetIndex en ?si 2000 \<longrightarrow> \<not> abortSignal k"
    using na by simp
  from full_run [OF fit si pass ok' na'] c
  show "\<exists>w' s. pruneDatabase en 2000 abortSignal w = Some (Return None, w') \<and>
         GetSnapshotInfo w' = Some s \<and> EntryPointIndex s = 899 \<and>
         unconfirmedPruned (newEvents w w') = 0 # indexRange 1 899"
    by simp
qed

theorem target_clamped_witness:
  "GetSnapshotInfo scenarioWorld = Some \<lparr>SnapshotIndex = 1000, EntryPointIndex = 0, PruningIndex = 0\<rparr> \<and>
   targetIndexMax exampleEnv \<lparr>SnapshotIndex = 1000, EntryPointIndex = 0, PruningIndex = 0\<rparr> < 2000 \<and>
   SolidEntryPointCheckThresholdPast exampleEnv = 50 \<and>
   snd (walkerResult exampleEnv 899 neverAborted scenarioWorld) = None \<and>
   pruneDatabase exampleEnv 2000 neverAborted scenarioWorld =
     pruneDatabase exampleEnv 899 neverAborted scenarioWorld \<and>
   (\<exists>w' s. pruneDatabase exampleEnv 2000 neverAborted scenarioWorld = Some (Return None, w') \<and>
      GetSnapshotInfo w' = Some s \<and> EntryPointIndex s = 899 \<and>
      unconfirmedPruned (newEvents scenarioWorld w') = 0 # indexRange 1 899)"
proof -
  let ?si = "\<lparr>SnapshotIndex = 1000, EntryPointIndex = 0, PruningIndex = 0\<rparr>"
  have si: "GetSnapshotInfo scenarioWorld = Some ?si"
    by (simp add: scenarioWorld_def GetSnapshotInfo_def)
  have pt: "SolidEntryPointCheckThresholdPast exampleEnv = 50"
    by (simp add: exampleEnv_def)
  have m: "targetIndexMax exampleEnv ?si = 899"
    by (simp add: targetIndexMax_def pt AdditionalPruningThreshold_def)
  have ok: "snd (walkerResult exampleEnv 899 neverAborted scenarioWorld) = None"
    by (simp add: walkerResult_def exampleEnv_def)
  have na: "\<forall>k. \<not> neverAborted k" by (simp add: neverAborted_def)
  have l: "targetIndexMax exampleEnv ?si < 2000" by (simp add: m)
  note t = target_clamped [where w = scenarioWorld and si = "?si" and targetIndex = 2000
      and en = exampleEnv and abortSignal = neverAborted]
  from t si l m
  have e: "pruneDatabase exampleEnv 2000 neverAborted scenarioWorld =
           pruneDatabase exampleEnv 899 neverAborted scenarioWorld" by simp
  from t si pt ok na
  have x: "\<exists>w' s. pruneDatabase exampleEnv 2000 neverAborted scenarioWorld = Some (Return None, w') \<and>
      GetSnapshotInfo w' = Some s \<and> EntryPointIndex s = 899 \<and>
      unconfirmedPruned (newEvents scenarioWorld w') = 0 # indexRange 1 899" by simp
  from si l pt ok e x show ?thesis by blast
qed

text \<open>
  Claim C4. When the first two checks pass and
  \<open>EntryPointIndex + AdditionalPruningThreshold + 1 > targetIndex\<close> holds for the clamped
  target (in \<open>uint32\<close> arithmetic, as the code computes it), \<open>pruneDatabase\<close> returns
  \<open>ErrNotEnoughHistory\<close> and the state is the one it was called in, log included: no
  flag set, no solid entry point touched, no retention state written, nothing deleted.
\<close>

theorem threshold_rejection:
  assumes "GetSnapshotInfo w = Some si"
    and "\<not> SnapshotIndex si < SolidEntryPointCheckThresholdPast en + AdditionalPruningThreshold + 1"
    and "\<not> PruningIndex si \<ge> clampTargetIndex en si targetIndex"
    and "EntryPointIndex si + AdditionalPruningThreshold + 1 > clampTargetIndex en si targetIndex"
  shows "pruneDatabase en targetIndex abortSignal w = Some (Return (Some ErrNotEnoughHistory), w)"
  using assms by (simp add: pruneDatabase_def Let_def)

theorem threshold_rejection_witness:
  "GetSnapshotInfo exampleWorld = Some \<lparr>SnapshotIndex = 200, EntryPointIndex = 0, PruningIndex = 0\<rparr> \<and>
   clampTargetIndex exampleEnv \<lparr>SnapshotIndex = 200, EntryPointIndex = 0, PruningIndex = 0\<rparr> 40 = 40 \<and>
   pruneDatabase exampleEnv 40 neverAborted exampleWorld =
     Some (Return (Some ErrNotEnoughHistory), exampleWorld)"
proof -
  let ?si = "\<lparr>SnapshotIndex = 200, EntryPointIndex = 0, PruningIndex = 0\<rparr>"
  have si: "GetSnapshotInfo exampleWorld = Some ?si"
    by (simp add: exampleWorld_def GetSnapshotInfo_def)
  have pt: "SolidEntryPointCheckThresholdPast exampleEnv = 50"
    by (simp add: exampleEnv_def)
  have c: "clampTargetIndex exampleEnv ?si 40 = 40"
    by (simp add: clampTargetIndex_def targetIndexMax_def pt AdditionalPruningThreshold_def)
  have 1: "\<not> SnapshotIndex ?si < SolidEntryPointCheckThresholdPast exampleEnv + AdditionalPruningThreshold + 1"
    by (simp add: pt AdditionalPruningThreshold_def)
  have 2: "\<not> PruningIndex ?si \<ge> clampTargetIndex exampleEnv ?si 40"
    by (simp add: c)
  have 3: "EntryPointIndex ?si + AdditionalPruningThreshold + 1 > clampTargetIndex exampleEnv ?si 40"
    by (simp add: c AdditionalPruningThreshold_def)
  from threshold_rejection [OF si 1 2 3, of neverAborted] si c show ?thesis by simp
qed

text \<open>
  Claim C5, as stated, fails. Milestone 1 is missing, so its pass is skipped and writes
  no progress; the abort signal is set at the check for milestone 2. The run returns
  \<open>ErrPruningAborted\<close> with \<open>EntryPointIndex\<close> 60, but the persisted \<open>PruningIndex\<close> is 0,
  not 1.
\<close>

theorem abort_after_skipped_pass:
  "map_option (\<lambda>(r, w'). (r, GetSnapshotInfo w'))
     (pruneDatabase exampleEnv 60 (abortedAt 2) exampleWorld) =
   Some (Return (Some ErrPruningAborted),
         Some \<lparr>SnapshotIndex = 200, EntryPointIndex = 60, PruningIndex = 0\<rparr>)"
  by (simp add: run_defs exampleEnv_def exampleWorld_def abortedAt_def
        pruneLoop_step pruneLoop_abort)

text \<open>
  Claim C5, amended. When the abort signal is first set at the check for milestone \<open>k\<close>
  of a run whose checks passed and whose walker succeeded, \<open>pruneDatabase\<close> returns
  \<open>ErrPruningAborted\<close> in the very state in which that check ran (only the \<open>isPruning\<close>
  flag is reset): the passes for the milestones below \<open>k\<close> have run, no work was done
  for \<open>k\<close> or a later milestone, and no garbage collection was triggered. The persisted
  \<open>EntryPointIndex\<close> is the target of the run. The persisted \<open>PruningIndex\<close> is \<open>k - 1\<close>
  when \<open>k\<close> is the first milestone of the run, and when the pass for \<open>k - 1\<close> was not
  skipped; when that pass was skipped, because milestone \<open>k - 1\<close> was not found or the
  traversal of its cone returned an error, the persisted retention state is the one
  from before that pass and \<open>PruningIndex\<close> is below \<open>k - 1\<close>. In every case it is the
  last milestone whose pass ran to its end, or the one from before the run.
\<close>

theorem abort_stops_run:
  assumes fit: "constantsFit en"
    and si: "GetSnapshotInfo w = Some si"
    and pass: "checksPass en targetIndex si"
    and ok: "snd (walkerResult en (clampTargetIndex en si targetIndex) abortSignal w) = None"
    and k: "PruningIndex si < k" "k \<le> clampTargetIndex en si targetIndex"
    and ab: "abortSignal k"
    and before: "\<forall>j. PruningIndex si < j \<and> j < k \<longrightarrow> \<not> abortSignal j"
  shows "\<exists>w' s. pruneDatabase en targetIndex abortSignal w = Some (Return (Some ErrPruningAborted), w') \<and>
           w' = setIsPruning False
                  (snd (stateAtPass en (clampTargetIndex en si targetIndex) abortSignal si w k)) \<and>
           GetSnapshotInfo w' = Some s \<and>
           EntryPointIndex s = clampTargetIndex en si targetIndex \<and>
           (k = PruningIndex si + 1 \<longrightarrow> PruningIndex s = k - 1) \<and>
           (PruningIndex si + 1 < k \<longrightarrow>
              (if skipped en (k - 1)
                    (snd (stateAtPass en (clampTargetIndex en si targetIndex) abortSignal si w (k - 1)))
               then PruningIndex s < k - 1 \<and>
                    GetSnapshotInfo
                      (snd (stateAtPass en (clampTargetIndex en si targetIndex) abortSignal si w (k - 1))) =
                    Some s
               else PruningIndex s = k - 1)) \<and>
           PruningIndex s = last (PruningIndex si # completed (newEvents w w')) \<and>
           PruningIndex si \<le> PruningIndex s \<and> PruningIndex s < k \<and>
           (PruningIndex s = k - 1 \<longleftrightarrow>
              k = PruningIndex si + 1 \<or> k - 1 \<in> set (completed (newEvents w w'))) \<and>
           unconfirmedPruned (newEvents w w') =
             PruningIndex si # indexRange (PruningIndex si + 1) (k - 1) \<and>
           EvRunGarbageCollection \<notin> set (newEvents w w')"
proof -
  define t where "t = clampTargetIndex en si targetIndex"
  define p0 where "p0 = PruningIndex si"
  define si1 where "si1 = si\<lparr>EntryPointIndex := t\<rparr>"
  define sbl where "sbl = stateBeforeLoop en t abortSignal si w"
  define at where "at = stateAtPass en t abortSignal si w"
  have at_def': "at j = runPasses en (indexRange (p0 + 1) (j - 1)) (si1, sbl)" for j
    by (simp add: at_def stateAtPass_def p0_def si1_def sbl_def)
  have fin: "unat t < 2^32 - 1"
    unfolding t_def using checksPass_bounds [OF fit pass] by blast
  have pk: "p0 < k" and kt: "k \<le> t" using k by (simp_all add: p0_def t_def)
  have pt: "p0 \<le> t" using pk kt by (simp add: order_less_imp_le order_less_le_trans)
  have up: "unat (p0 + 1) = unat p0 + 1" using pt fin by (rule index_succ)
  have lp: "p0 < p0 + 1" using up by (simp add: word_less_nat_alt)
  have bef: "\<forall>j. p0 < j \<and> j < k \<longrightarrow> \<not> abortSignal j" using before by (simp add: p0_def)
  have run: "pruneDatabase en targetIndex abortSignal w = pruneDatabaseRun en t abortSignal si w"
    unfolding t_def by (rule pruneDatabase_run [OF si pass])
  have loop: "pruneLoop en abortSignal t (p0 + 1) si1 sbl =
                Some (Return (Some ErrPruningAborted), snd (at k))"
    using passesRun_first_abort [OF fin pk kt ab bef]
    by (simp add: pruneLoop_eq [OF fin] at_def')
  have res: "pruneDatabase en targetIndex abortSignal w =
               Some (Return (Some ErrPruningAborted), setIsPruning False (snd (at k)))"
    using loop pruneDatabaseRun_ok [OF ok [folded t_def], of si]
    by (simp add: run p0_def si1_def sbl_def)
  have s0: "snapshotInfo sbl = Some si1"
    by (simp add: sbl_def si1_def stateBeforeLoop_keeps)
  have inv: "snapshotInfo (snd (at j)) = Some (fst (at j)) \<and>
             EntryPointIndex (fst (at j)) = t \<and>
             (PruningIndex (fst (at j)) = p0 \<or>
              PruningIndex (fst (at j)) \<in> set (indexRange (p0 + 1) (j - 1)))" for j
    using runPasses_snapshotInfo [OF s0, of en "indexRange (p0 + 1) (j - 1)"]
    by (simp add: at_def' si1_def p0_def)
  define s where "s = fst (at k)"
  have g: "GetSnapshotInfo (setIsPruning False (snd (at k))) = Some s"
    using inv [of k] by (simp add: GetSnapshotInfo_def setIsPruning_keeps s_def)
  have ep: "EntryPointIndex s = t" using inv [of k] by (simp add: s_def)
  have first: "PruningIndex s = k - 1" if "k = p0 + 1"
  proof -
    have "k - 1 = p0" using that by simp
    moreover have "indexRange (p0 + 1) p0 = []"
      using lp by (intro indexRange_Nil) (simp add: not_le)
    ultimately have "at k = (si1, sbl)" by (simp add: at_def' runPasses_Nil)
    then show ?thesis using \<open>k - 1 = p0\<close> by (simp add: s_def si1_def p0_def)
  qed
  have later: "if skipped en (k - 1) (snd (at (k - 1)))
               then PruningIndex s < k - 1 \<and> GetSnapshotInfo (snd (at (k - 1))) = Some s
               else PruningIndex s = k - 1" if lt: "p0 + 1 < k"
  proof -
    define j where "j = k - 1"
    have uk: "unat j + 1 = unat k" unfolding j_def using pk by (rule index_pred)
    have "unat p0 + 1 < unat k" using lt up by (simp add: word_less_nat_alt)
    then have pj1: "p0 + 1 \<le> j" and pj: "p0 < j"
      using uk up by (simp_all add: word_le_nat_alt word_less_nat_alt)
    have uj: "unat (j - 1) + 1 = unat j" using pj by (rule index_pred)
    have "indexRange (p0 + 1) j = indexRange (p0 + 1) (j - 1) @ [j]"
      using lp pj1 by (rule indexRange_snoc)
    then have step: "at k = pruneIteration en j (fst (at j)) (snd (at j))"
      by (simp add: at_def' [of k] at_def' [of j] j_def [symmetric] runPasses_snoc)
    have sj: "snapshotInfo (snd (at j)) = Some (fst (at j))" using inv [of j] by simp
    have "PruningIndex (fst (at j)) = p0 \<or>
          PruningIndex (fst (at j)) \<in> set (indexRange (p0 + 1) (j - 1))"
      using inv [of j] by simp
    then have below: "PruningIndex (fst (at j)) < j"
    proof
      assume "PruningIndex (fst (at j)) = p0"
      then show ?thesis using pj by simp
    next
      assume "PruningIndex (fst (at j)) \<in> set (indexRange (p0 + 1) (j - 1))"
      then have "PruningIndex (fst (at j)) \<le> j - 1" using indexRange_set by blast
      then have "unat (PruningIndex (fst (at j))) \<le> unat (j - 1)" by (simp add: word_le_nat_alt)
      then show ?thesis using uj by (simp add: word_less_nat_alt)
    qed
    show ?thesis
    proof (cases "skipped en j (snd (at j))")
      case True
      have "s = fst (at j)" by (simp add: s_def step pruneIteration_trace_skipped [OF True])
      then show ?thesis using True below sj
        by (simp add: j_def [symmetric] GetSnapshotInfo_def)
    next
      case False
      have "s = (fst (at j))\<lparr>PruningIndex := j\<rparr>"
        by (simp add: s_def step pruneIteration_done(1) [OF False])
      then show ?thesis using False by (simp add: j_def [symmetric])
    qed
  qed
  from abort_stops_run_events [OF fit si pass ok k ab before]
  obtain w' s' where
    r': "pruneDatabase en targetIndex abortSignal w = Some (Return (Some ErrPruningAborted), w')"
    and g': "GetSnapshotInfo w' = Some s'"
    and ev: "PruningIndex s' = last (PruningIndex si # completed (newEvents w w'))"
        "PruningIndex si \<le> PruningIndex s'" "PruningIndex s' < k"
        "PruningIndex s' = k - 1 \<longleftrightarrow>
              k = PruningIndex si + 1 \<or> k - 1 \<in> set (completed (newEvents w w'))"
        "unconfirmedPruned (newEvents w w') =
             PruningIndex si # indexRange (PruningIndex si + 1) (k - 1)"
        "EvRunGarbageCollection \<notin> set (newEvents w w')"
    by blast
  have w': "w' = setIsPruning False (snd (at k))" using r' res by simp
  have ss: "s' = s" using g g' w' by simp
  have c1: "k = PruningIndex si + 1 \<longrightarrow> PruningIndex s = k - 1"
    using first by (simp add: p0_def)
  have c2: "PruningIndex si + 1 < k \<longrightarrow>
      (if skipped en (k - 1) (snd (at (k - 1)))
       then PruningIndex s < k - 1 \<and> GetSnapshotInfo (snd (at (k - 1))) = Some s
       else PruningIndex s = k - 1)"
    using later unfolding p0_def by blast
  note final = res [unfolded at_def t_def] g [unfolded at_def t_def] ep [unfolded t_def]
    c1 c2 [unfolded at_def t_def] ev [unfolded ss w' at_def t_def]
  show ?thesis
    apply (rule exI [of _ "setIsPruning False
        (snd (stateAtPass en (clampTargetIndex en si targetIndex) abortSignal si w k))"])
    apply (rule exI [of _ s])
    apply (intro conjI)
    apply (rule final refl)+
    done
qed

theorem abort_stops_run_witness:
  "constantsFit exampleEnv \<and>
   GetSnapshotInfo exampleWorld = Some \<lparr>SnapshotIndex = 200, EntryPointIndex = 0, PruningIndex = 0\<rparr> \<and>
   checksPass exampleEnv 60 \<lparr>SnapshotIndex = 200, EntryPointIndex = 0, PruningIndex = 0\<rparr> \<and>
   clampTargetIndex exampleEnv \<lparr>SnapshotIndex = 200, EntryPointIndex = 0, PruningIndex = 0\<rparr> 60 = 60 \<and>
   snd (walkerResult exampleEnv 60 (abortedAt 3) exampleWorld) = None \<and>
   snd (walkerResult exampleEnv 60 (abortedAt 2) exampleWorld) = None \<and>
   abortedAt 3 3 \<and> \<not> abortedAt 3 1 \<and> \<not> abortedAt 3 2 \<and> abortedAt 2 2 \<and> \<not> abortedAt 2 1 \<and>
   \<not> skipped exampleEnv 2
       (snd (stateAtPass exampleEnv 60 (abortedAt 3)
               \<lparr>SnapshotIndex = 200, EntryPointIndex = 0, PruningIndex = 0\<rparr> exampleWorld 2)) \<and>
   (\<exists>w' s. pruneDatabase exampleEnv 60 (abortedAt 3) exampleWorld =
              Some (Return (Some ErrPruningAborted), w') \<and>
      GetSnapshotInfo w' = Some s \<and> EntryPointIndex s = 60 \<and> PruningIndex s = 2 \<and>
      EvRunGarbageCollection \<notin> set (newEvents exampleWorld w')) \<and>
   skipped exampleEnv 1
       (snd (stateAtPass exampleEnv 60 (abortedAt 2)
               \<lparr>SnapshotIndex = 200, EntryPointIndex = 0, PruningIndex = 0\<rparr> exampleWorld 1)) \<and>
   (\<exists>w' s. pruneDatabase exampleEnv 60 (abortedAt 2) exampleWorld =
              Some (Return (Some ErrPruningAborted), w') \<and>
      GetSnapshotInfo w' = Some s \<and> EntryPointIndex s = 60 \<and> PruningIndex s < 1 \<and>
      EvRunGarbageCollection \<notin> set (newEvents exampleWorld w'))"
proof -
  let ?si = "\<lparr>SnapshotIndex = 200, EntryPointIndex = 0, PruningIndex = 0\<rparr>"
  have pt: "SolidEntryPointCheckThresholdPast exampleEnv = 50"
    by (simp add: exampleEnv_def)
  have fit: "constantsFit exampleEnv"
    by (simp add: constantsFit_def pt AdditionalPruningThreshold_def)
  have si: "GetSnapshotInfo exampleWorld = Some ?si"
    by (simp add: exampleWorld_def GetSnapshotInfo_def)
  have c: "clampTargetIndex exampleEnv ?si 60 = 60"
    by (simp add: clampTargetIndex_def targetIndexMax_def pt AdditionalPruningThreshold_def)
  have pass: "checksPass exampleEnv 60 ?si"
    by (simp add: checksPass_def c pt AdditionalPruningThreshold_def)
  have ok: "snd (walkerResult exampleEnv (clampTargetIndex exampleEnv ?si 60) a exampleWorld) = None" for a
    by (simp add: walkerResult_def exampleEnv_def)
  have ok': "snd (walkerResult exampleEnv 60 a exampleWorld) = None" for a
    using ok [of a] unfolding c .
  have ab: "abortedAt 3 3" "\<not> abortedAt 3 1" "\<not> abortedAt 3 2" "abortedAt 2 2" "\<not> abortedAt 2 1"
    by (simp_all add: abortedAt_def)
  have tr: "snd (TraverseParents exampleEnv v m) = None" for v m
    by (simp add: exampleEnv_def)
  have e1: "stateAtPass exampleEnv 60 a ?si exampleWorld 1 =
              (?si\<lparr>EntryPointIndex := 60\<rparr>, stateBeforeLoop exampleEnv 60 a ?si exampleWorld)" for a
    by (simp add: stateAtPass_def indexRange_def runPasses_Nil)
  have m1: "milestones (snd (stateAtPass exampleEnv 60 a ?si exampleWorld 1)) = milestones exampleWorld" for a
    by (simp add: e1 stateBeforeLoop_keeps)
  have sk1: "skipped exampleEnv 1 (snd (stateAtPass exampleEnv 60 (abortedAt 2) ?si exampleWorld 1))"
    by (simp add: skipped_iff m1) (simp add: exampleWorld_def)
  have e2: "stateAtPass exampleEnv 60 a ?si exampleWorld 2 =
              pruneIteration exampleEnv 1 (?si\<lparr>EntryPointIndex := 60\<rparr>)
                (stateBeforeLoop exampleEnv 60 a ?si exampleWorld)" for a
    by (simp add: stateAtPass_def indexRange_def runPasses_Cons runPasses_Nil)
  have m2: "milestones (snd (stateAtPass exampleEnv 60 a ?si exampleWorld 2)) 2 = Some ''m2''" for a
    by (simp add: e2 pruneIteration_milestones stateBeforeLoop_keeps) (simp add: exampleWorld_def)
  have sk2: "\<not> skipped exampleEnv 2 (snd (stateAtPass exampleEnv 60 (abortedAt 3) ?si exampleWorld 2))"
    by (simp add: skipped_iff m2 tr)
  have k3: "PruningIndex ?si < 3" "3 \<le> clampTargetIndex exampleEnv ?si 60" by (simp_all add: c)
  have b3: "\<forall>j. PruningIndex ?si < j \<and> j < 3 \<longrightarrow> \<not> abortedAt 3 j"
    by (auto simp: abortedAt_def)
  have k2: "PruningIndex ?si < 2" "2 \<le> clampTargetIndex exampleEnv ?si 60" by (simp_all add: c)
  have b2: "\<forall>j. PruningIndex ?si < j \<and> j < 2 \<longrightarrow> \<not> abortedAt 2 j"
    by (auto simp: abortedAt_def)
  have l3: "PruningIndex ?si + 1 < 3" and l2: "PruningIndex ?si + 1 < 2" and d: "(3::index) - 1 = 2" "(2::index) - 1 = 1"
    by simp_all
  from abort_stops_run [OF fit si pass ok k3 ab(1) b3] l3 sk2
  have r3: "\<exists>w' s. pruneDatabase exampleEnv 60 (abortedAt 3) exampleWorld =
              Some (Return (Some ErrPruningAborted), w') \<and>
      GetSnapshotInfo w' = Some s \<and> EntryPointIndex s = 60 \<and> PruningIndex s = 2 \<and>
      EvRunGarbageCollection \<notin> set (newEvents exampleWorld w')"
    unfolding c d by (elim exE conjE) (intro exI conjI, assumption+, simp, assumption)
  from abort_stops_run [OF fit si pass ok k2 ab(4) b2] l2 sk1
  have r2: "\<exists>w' s. pruneDatabase exampleEnv 60 (abortedAt 2) exampleWorld =
              Some (Return (Some ErrPruningAborted), w') \<and>
      GetSnapshotInfo w' = Some s \<and> EntryPointIndex s = 60 \<and> PruningIndex s < 1 \<and>
      EvRunGarbageCollection \<notin> set (newEvents exampleWorld w')"
    unfolding c d by (elim exE conjE) (intro exI conjI, assumption+, simp, assumption)
  from fit si pass c ok' ab sk2 r3 sk1 r2 show ?thesis by blast
qed

text \<open>
  Claim C6. From a retention state with
  \<open>PruningIndex \<le> EntryPointIndex \<le> SnapshotIndex\<close>, every call of \<open>pruneDatabase\<close>
  returns, whatever its outcome, in a state whose retention state satisfies the same
  inequalities, and so does every retention state the run handed to \<open>SetSnapshotInfo\<close>
  on the way.
\<close>

theorem retention_invariant_preserved:
  assumes fit: "constantsFit en"
    and si: "GetSnapshotInfo w = Some si"
    and inv: "retentionInvariant si"
  shows "\<exists>r w' si'. pruneDatabase en targetIndex abortSignal w = Some (r, w') \<and>
           GetSnapshotInfo w' = Some si' \<and> retentionInvariant si' \<and>
           (\<forall>x \<in> set (snapshotWrites (newEvents w w')). retentionInvariant x)"
proof (cases "checksPass en targetIndex si")
  case False
  from pruneDatabase_rejected [OF si False] obtain e where
    "pruneDatabase en targetIndex abortSignal w = Some (Return (Some e), w)" by blast
  then show ?thesis using si inv by (simp add: newEvents_same snapshotWrites_def)
next
  case True
  define t where "t = clampTargetIndex en si targetIndex"
  have first: "\<not> SnapshotIndex si < SolidEntryPointCheckThresholdPast en + AdditionalPruningThreshold + 1"
    using True by (simp add: checksPass_def)
  have fin: "unat t < 2^32 - 1" and le: "t \<le> SnapshotIndex si"
    unfolding t_def using clamp_bounds [OF fit first] by blast+
  have lt: "PruningIndex si < t" using True by (simp add: checksPass_def t_def not_le)
  have run: "pruneDatabase en targetIndex abortSignal w = pruneDatabaseRun en t abortSignal si w"
    unfolding t_def by (rule pruneDatabase_run [OF si True])
  show ?thesis
  proof (cases "snd (walkerResult en t abortSignal w)")
    case (Some e)
    let ?w' = "setIsPruning False (snd (recomputeSolidEntryPoints en t abortSignal (setIsPruning True w)))"
    have r: "pruneDatabase en targetIndex abortSignal w = Some (Return (Some e), ?w')"
      using run pruneDatabaseRun_walker_error [OF Some] by simp
    have "GetSnapshotInfo ?w' = Some si"
      using si by (simp add: GetSnapshotInfo_def setIsPruning_keeps recompute_keeps)
    moreover have "snapshotWrites (newEvents w ?w') = []"
      by (simp add: newEvents_def setIsPruning_keeps recompute_keeps snapshotWrites_def)
    ultimately show ?thesis using r inv by simp
  next
    case None
    define I where "I = (\<lambda>(j::index) (s::SnapshotInfo) (v::world). snapshotInfo v = Some s \<and> SnapshotIndex s = SnapshotIndex si \<and>
        EntryPointIndex s = t \<and> PruningIndex s \<le> t \<and>
        (\<exists>tr. trace v = trace w @ tr \<and> (\<forall>x \<in> set (snapshotWrites tr). retentionInvariant x)))"
    have init: "I (PruningIndex si + 1) (si\<lparr>EntryPointIndex := t\<rparr>) (stateBeforeLoop en t abortSignal si w)"
      using lt le by (simp add: I_def stateBeforeLoop_keeps snapshotWrites_def retentionInvariant_def)
    have step: "I (j + 1) (fst (pruneIteration en j s v)) (snd (pruneIteration en j s v))"
      if i: "I j s v" and j: "j \<le> t" and "\<not> abortSignal j" for j s v
    proof (cases "skipped en j v")
      case True
      show ?thesis using i
        by (auto simp: I_def pruneIteration_trace_skipped [OF True] snapshotWrites_def)
    next
      case False
      from pruneIteration_done(5) [OF False, of s] obtain ms mid where
        tr: "trace (snd (pruneIteration en j s v)) =
           trace v @ [EvPruneMessages (fold (checkUnconfirmed v) (unconfirmedMessages v j) []),
                      EvDeleteUnconfirmedMessages j] @ mid @
             [EvPruneMessages (fold mapAdd (fst (TraverseParents en (snd (snd (pruneUnconfirmedMessages j v))) ms)) []),
              EvSetSnapshotInfo (s\<lparr>PruningIndex := j\<rparr>), EvPruningMilestoneIndexChanged j]"
        and mid: "set mid \<subseteq> {EvPruneMilestoneIndex j, EvDeleteMilestone j}" by blast
      have m: "snapshotWrites mid = []" using mid
        by (induction mid) (auto simp: snapshotWrites_def)
      have "retentionInvariant (s\<lparr>PruningIndex := j\<rparr>)"
        using i j le by (simp add: I_def retentionInvariant_def)
      then show ?thesis using i j m
        by (auto simp: I_def pruneIteration_done(1,2) [OF False] tr snapshotWrites_def)
    qed
    from pruneDatabaseRun_rule [of t en abortSignal w I si, OF fin None init step]
    obtain r w' j s where
      r: "pruneDatabaseRun en t abortSignal si w = Some (r, setIsPruning False w')"
      and p: "I j s w' \<or> (\<exists>v. I j s v \<and> w' = RunGarbageCollection v)"
      by blast
    from p have "\<exists>s. snapshotInfo (setIsPruning False w') = Some s \<and> retentionInvariant s \<and>
        (\<exists>tr. trace (setIsPruning False w') = trace w @ tr \<and> (\<forall>x \<in> set (snapshotWrites tr). retentionInvariant x))"
      using le
      by (auto simp: I_def setIsPruning_keeps RunGarbageCollection_keeps snapshotWrites_def
            retentionInvariant_def)
    then show ?thesis using run r
      by (auto simp: GetSnapshotInfo_def newEvents_def)
  qed
qed

theorem retention_invariant_preserved_witness:
  "constantsFit exampleEnv \<and>
   GetSnapshotInfo exampleWorld = Some \<lparr>SnapshotIndex = 200, EntryPointIndex = 0, PruningIndex = 0\<rparr> \<and>
   retentionInvariant \<lparr>SnapshotIndex = 200, EntryPointIndex = 0, PruningIndex = 0\<rparr> \<and>
   (\<exists>r w' si'. pruneDatabase exampleEnv 60 (abortedAt 3) exampleWorld = Some (r, w') \<and>
      GetSnapshotInfo w' = Some si' \<and> retentionInvariant si' \<and>
      (\<forall>x \<in> set (snapshotWrites (newEvents exampleWorld w')). retentionInvariant x))"
proof -
  let ?si = "\<lparr>SnapshotIndex = 200, EntryPointIndex = 0, PruningIndex = 0\<rparr>"
  have fit: "constantsFit exampleEnv"
    by (simp add: constantsFit_def exampleEnv_def AdditionalPruningThreshold_def)
  have si: "GetSnapshotInfo exampleWorld = Some ?si"
    by (simp add: exampleWorld_def GetSnapshotInfo_def)
  have inv: "retentionInvariant ?si" by (simp add: retentionInvariant_def)
  from retention_invariant_preserved [OF fit si inv, of 60 "abortedAt 3"] fit si inv
  show ?thesis by blast
qed

text \<open>
  Claim C7. \<open>pruneMilestone\<close> calls \<open>utxo.PruneMilestoneIndex\<close> first. When that returns
  an error, \<open>pruneMilestone\<close> returns the same error, in the state that call left, and the
  milestone is not deleted. When it returns nil, the milestone is deleted next and
  \<open>pruneMilestone\<close> returns nil. So \<open>pruneMilestone\<close> returns an error exactly when the
  deletion of the ledger diff does.
\<close>

theorem pruneMilestone_error_iff:
  "(\<forall>err. fst (PruneMilestoneIndex en i w) = Some err \<longrightarrow>
      pruneMilestone en i w = (Some err, snd (PruneMilestoneIndex en i w)) \<and>
      milestones (snd (pruneMilestone en i w)) = milestones w \<and>
      newEvents w (snd (pruneMilestone en i w)) = [EvPruneMilestoneIndex i]) \<and>
   (fst (PruneMilestoneIndex en i w) = None \<longrightarrow>
      pruneMilestone en i w = (None, DeleteMilestone i (snd (PruneMilestoneIndex en i w))) \<and>
      GetCachedMilestoneOrNil i (snd (pruneMilestone en i w)) = None \<and>
      newEvents w (snd (pruneMilestone en i w)) = [EvPruneMilestoneIndex i, EvDeleteMilestone i]) \<and>
   ((\<exists>err. fst (pruneMilestone en i w) = Some err) \<longleftrightarrow>
    (\<exists>err. fst (PruneMilestoneIndex en i w) = Some err))"
  by (auto simp: pruneMilestone_def prim_defs newEvents_def split: option.splits prod.splits)

theorem pruneMilestone_error_iff_witness:
  "fst (PruneMilestoneIndex failingLedgerEnv 2 exampleWorld) = Some (ErrOther ''ledger'') \<and>
   fst (pruneMilestone failingLedgerEnv 2 exampleWorld) = Some (ErrOther ''ledger'') \<and>
   milestones (snd (pruneMilestone failingLedgerEnv 2 exampleWorld)) 2 = Some ''m2'' \<and>
   fst (PruneMilestoneIndex exampleEnv 2 exampleWorld) = None \<and>
   fst (pruneMilestone exampleEnv 2 exampleWorld) = None \<and>
   milestones (snd (pruneMilestone exampleEnv 2 exampleWorld)) 2 = None"
proof -
  have f: "fst (PruneMilestoneIndex failingLedgerEnv 2 exampleWorld) = Some (ErrOther ''ledger'')"
    by (simp add: failingLedgerEnv_def exampleEnv_def PruneMilestoneIndex_def)
  have g: "fst (PruneMilestoneIndex exampleEnv 2 exampleWorld) = None"
    by (simp add: exampleEnv_def PruneMilestoneIndex_def)
  have m: "milestones exampleWorld 2 = Some ''m2''"
    by (simp add: exampleWorld_def)
  from pruneMilestone_error_iff [of failingLedgerEnv 2 exampleWorld] f m
  have 1: "fst (pruneMilestone failingLedgerEnv 2 exampleWorld) = Some (ErrOther ''ledger'') \<and>
           milestones (snd (pruneMilestone failingLedgerEnv 2 exampleWorld)) 2 = Some ''m2''"
    by (metis fst_conv)
  from pruneMilestone_error_iff [of exampleEnv 2 exampleWorld] g
  have 2: "fst (pruneMilestone exampleEnv 2 exampleWorld) = None \<and>
           milestones (snd (pruneMilestone exampleEnv 2 exampleWorld)) 2 = None"
    unfolding GetCachedMilestoneOrNil_def by (metis fst_conv)
  from f g 1 2 show ?thesis by simp
qed

text \<open>
  Claim C8. \<open>pruneMessages\<close> on identifiers that are all absent from the message store
  changes nothing but the log of calls, which gains the call itself; it returns the
  number of identifiers it was given, and it has no error to return.
\<close>

theorem pruneMessages_absent_noop:
  assumes "\<forall>m \<in> set messageIDsToDeleteMap. GetCachedMessageOrNil m w = None"
  shows "pruneMessages messageIDsToDeleteMap w =
           (length messageIDsToDeleteMap, emit (EvPruneMessages messageIDsToDeleteMap) w)"
  using assms
  by (simp add: pruneMessages_def GetCachedMessageOrNil_def fold_pruneMessage_absent emit_def)

theorem pruneMessages_absent_noop_witness:
  "GetCachedMessageOrNil ''x'' exampleWorld = None \<and>
   GetCachedMessageOrNil ''u2'' exampleWorld = None \<and>
   pruneMessages [''x'', ''u2''] exampleWorld =
     (2, emit (EvPruneMessages [''x'', ''u2'']) exampleWorld)"
  using pruneMessages_absent_noop [of "[''x'', ''u2'']" exampleWorld]
  by (simp add: exampleWorld_def GetCachedMessageOrNil_def)

text \<open>
  Claim C9. \<open>pruneMessages\<close> returns the size of the set it was given, whatever the
  store holds. So the two counts of \<open>pruneUnconfirmedMessages\<close> are equal, and both are
  the number of distinct candidates of the index that have metadata and are not
  confirmed.
\<close>

theorem pruneMessages_count:
  "(distinct ids \<longrightarrow> fst (pruneMessages ids w) = card (set ids)) \<and>
   fst (pruneUnconfirmedMessages i w) = fst (snd (pruneUnconfirmedMessages i w)) \<and>
   fst (snd (pruneUnconfirmedMessages i w)) =
     card {m \<in> set (GetUnconfirmedMessageIDs i w).
            \<exists>md. GetCachedMessageMetadataOrNil m w = Some md \<and> \<not> IsConfirmed md}"
proof -
  let ?keys = "fold (checkUnconfirmed w) (GetUnconfirmedMessageIDs i w) []"
  have d: "distinct ?keys" by (rule checkUnconfirmed_distinct) simp
  have s: "set ?keys = {m \<in> set (GetUnconfirmedMessageIDs i w).
            \<exists>md. GetCachedMessageMetadataOrNil m w = Some md \<and> \<not> IsConfirmed md}"
    by (simp add: checkUnconfirmed_set GetCachedMessageMetadataOrNil_def)
  have c: "fst (snd (pruneUnconfirmedMessages i w)) = length ?keys"
    by (simp add: pruneUnconfirmedMessages_def Let_def split: prod.splits)
  have e: "fst (pruneUnconfirmedMessages i w) = length ?keys"
    by (simp add: pruneUnconfirmedMessages_def pruneMessages_def Let_def)
  have "length ?keys = card (set ?keys)" using d by (simp add: distinct_card)
  then show ?thesis using c e s by (simp add: pruneMessages_def distinct_card)
qed

theorem pruneMessages_count_witness:
  "distinct [''m0'', ''x''] \<and> fst (pruneMessages [''m0'', ''x''] exampleWorld) = 2 \<and>
   GetCachedMessageOrNil ''u2'' exampleWorld = None \<and>
   pruneUnconfirmedMessages 2 exampleWorld =
     (1, 1, snd (snd (pruneUnconfirmedMessages 2 exampleWorld))) \<and>
   fst (pruneUnconfirmedMessages 1 exampleWorld) = 1 \<and>
   fst (snd (pruneUnconfirmedMessages 1 exampleWorld)) = 1"
proof -
  have d: "distinct [''m0'', ''x'']" by simp
  have a: "GetCachedMessageOrNil ''u2'' exampleWorld = None"
    by (simp add: GetCachedMessageOrNil_def exampleWorld_def)
  have c2: "{m \<in> set (GetUnconfirmedMessageIDs 2 exampleWorld).
            \<exists>md. GetCachedMessageMetadataOrNil m exampleWorld = Some md \<and> \<not> IsConfirmed md} = {''u2''}"
    by (auto simp: GetUnconfirmedMessageIDs_def GetCachedMessageMetadataOrNil_def exampleWorld_def)
  have c1: "{m \<in> set (GetUnconfirmedMessageIDs 1 exampleWorld).
            \<exists>md. GetCachedMessageMetadataOrNil m exampleWorld = Some md \<and> \<not> IsConfirmed md} = {''u1''}"
    by (auto simp: GetUnconfirmedMessageIDs_def GetCachedMessageMetadataOrNil_def exampleWorld_def)
  from pruneMessages_count [where ids = "[''m0'', ''x'']" and w = exampleWorld and i = 2] d c2
  have 2: "fst (pruneMessages [''m0'', ''x''] exampleWorld) = 2 \<and>
           fst (pruneUnconfirmedMessages 2 exampleWorld) = 1 \<and>
           fst (snd (pruneUnconfirmedMessages 2 exampleWorld)) = 1" by simp
  from pruneMessages_count [where ids = "[''m0'', ''x'']" and w = exampleWorld and i = 1] c1
  have 1: "fst (pruneUnconfirmedMessages 1 exampleWorld) = 1 \<and>
           fst (snd (pruneUnconfirmedMessages 1 exampleWorld)) = 1" by simp
  from 2 have "pruneUnconfirmedMessages 2 exampleWorld =
     (1, 1, snd (snd (pruneUnconfirmedMessages 2 exampleWorld)))"
    by (metis prod.collapse)
  with d a 1 2 show ?thesis by simp
qed

text \<open>
  Claim C10. When, for every milestone from \<open>PruningIndex + 1\<close> to the target, the
  milestone is not found or the traversal of its cone returns an error (and nobody
  aborts), every pass is skipped: \<open>pruneDatabase\<close> returns nil and triggers the garbage
  collection, the only retention state it wrote is the one that advances
  \<open>EntryPointIndex\<close> to the target, and the persisted \<open>PruningIndex\<close> is the one it had
  before, below the target.
\<close>

theorem all_skipped_run_succeeds:
  assumes fit: "constantsFit en"
    and si: "GetSnapshotInfo w = Some si"
    and pass: "checksPass en targetIndex si"
    and ok: "snd (walkerResult en (clampTargetIndex en si targetIndex) abortSignal w) = None"
    and na: "\<forall>k. PruningIndex si < k \<and> k \<le> clampTargetIndex en si targetIndex \<longrightarrow> \<not> abortSignal k"
    and sk: "\<forall>k. PruningIndex si < k \<and> k \<le> clampTargetIndex en si targetIndex \<longrightarrow>
               (case GetCachedMilestoneOrNil k w of
                  None \<Rightarrow> True
                | Some ms \<Rightarrow> \<forall>v. snd (TraverseParents en v ms) \<noteq> None)"
  shows "\<exists>w'. pruneDatabase en targetIndex abortSignal w = Some (Return None, w') \<and>
           PruningIndex si < clampTargetIndex en si targetIndex \<and>
           GetSnapshotInfo w' = Some (si\<lparr>EntryPointIndex := clampTargetIndex en si targetIndex\<rparr>) \<and>
           snapshotWrites (newEvents w w') = [si\<lparr>EntryPointIndex := clampTargetIndex en si targetIndex\<rparr>] \<and>
           completed (newEvents w w') = [] \<and>
           EvRunGarbageCollection \<in> set (newEvents w w')"
proof -
  define t where "t = clampTargetIndex en si targetIndex"
  define si1 where "si1 = si\<lparr>EntryPointIndex := t\<rparr>"
  have fin: "unat t < 2^32 - 1"
    unfolding t_def using checksPass_bounds [OF fit pass] by blast
  have lt: "PruningIndex si < t" unfolding t_def by (rule checksPass_lt [OF pass])
  have run: "pruneDatabase en targetIndex abortSignal w = pruneDatabaseRun en t abortSignal si w"
    unfolding t_def by (rule pruneDatabase_run [OF si pass])
  define I where "I = (\<lambda>(j::index) (s::SnapshotInfo) (v::world).
      s = si1 \<and> snapshotInfo v = Some si1 \<and> milestones v = milestones w \<and> PruningIndex si < j \<and>
      (\<exists>tr. trace v = trace w @ tr \<and> snapshotWrites tr = [si1] \<and> completed tr = []))"
  have init: "I (PruningIndex si + 1) (si\<lparr>EntryPointIndex := t\<rparr>) (stateBeforeLoop en t abortSignal si w)"
    using lt fin index_less_succ [of "PruningIndex si" t "PruningIndex si"]
    by (simp add: I_def si1_def stateBeforeLoop_keeps snapshotWrites_def completed_def)
  have step: "I (j + 1) (fst (pruneIteration en j s v)) (snd (pruneIteration en j s v))"
    if i: "I j s v" and j: "j \<le> t" and "\<not> abortSignal j" for j s v
  proof -
    have pj: "PruningIndex si < j" and mv: "milestones v = milestones w" using i by (simp_all add: I_def)
    have s: "skipped en j v"
      using sk [rule_format, of j] pj j mv
      by (auto simp: skipped_iff t_def GetCachedMilestoneOrNil_def split: option.splits)
    have "PruningIndex si < j + 1"
      using pj j fin by (simp add: index_less_succ [of j t])
    then show ?thesis using i
      by (auto simp: I_def pruneIteration_trace_skipped [OF s] snapshotWrites_def completed_def)
  qed
  from pruneDatabaseRun_rule [of t en abortSignal w I si, OF fin ok [folded t_def] init step]
  obtain r w' where
    r: "pruneDatabaseRun en t abortSignal si w = Some (r, setIsPruning False w')"
    and p: "(r = Return (Some ErrPruningAborted) \<and> (\<exists>j s. j \<le> t \<and> abortSignal j \<and> I j s w'))
            \<or> (r = Return None \<and> (\<exists>j s v. \<not> j \<le> t \<and> I j s v \<and> w' = RunGarbageCollection v))"
    by blast
  have "\<not> (\<exists>j s. j \<le> t \<and> abortSignal j \<and> I j s w')"
    using na by (auto simp: I_def t_def)
  with p obtain j s v where rn: "r = Return None" and i: "I j s v"
    and w': "w' = RunGarbageCollection v" by blast
  from i obtain tr where tr: "trace v = trace w @ tr" "snapshotWrites tr = [si1]" "completed tr = []"
    and s: "snapshotInfo v = Some si1"
    by (auto simp: I_def)
  have "newEvents w (setIsPruning False w') = tr @ [EvRunGarbageCollection, EvSetIsPruning False]"
    by (simp add: newEvents_def w' setIsPruning_keeps RunGarbageCollection_keeps tr)
  moreover have "GetSnapshotInfo (setIsPruning False w') = Some si1"
    using s by (simp add: GetSnapshotInfo_def w' setIsPruning_keeps RunGarbageCollection_keeps)
  ultimately show ?thesis using run r rn tr lt unfolding t_def [symmetric] si1_def [symmetric]
    by (simp add: snapshotWrites_def completed_def)
qed

theorem all_skipped_run_succeeds_witness:
  "constantsFit failingTraversalEnv \<and>
   GetSnapshotInfo exampleWorld = Some \<lparr>SnapshotIndex = 200, EntryPointIndex = 0, PruningIndex = 0\<rparr> \<and>
   checksPass failingTraversalEnv 60 \<lparr>SnapshotIndex = 200, EntryPointIndex = 0, PruningIndex = 0\<rparr> \<and>
   clampTargetIndex failingTraversalEnv \<lparr>SnapshotIndex = 200, EntryPointIndex = 0, PruningIndex = 0\<rparr> 60 = 60 \<and>
   snd (walkerResult failingTraversalEnv 60 neverAborted exampleWorld) = None \<and>
   GetCachedMilestoneOrNil 1 exampleWorld = None \<and>
   GetCachedMilestoneOrNil 2 exampleWorld = Some ''m2'' \<and>
   (\<exists>w'. pruneDatabase failingTraversalEnv 60 neverAborted exampleWorld = Some (Return None, w') \<and>
      GetSnapshotInfo w' = Some \<lparr>SnapshotIndex = 200, EntryPointIndex = 60, PruningIndex = 0\<rparr> \<and>
      completed (newEvents exampleWorld w') = [] \<and>
      EvRunGarbageCollection \<in> set (newEvents exampleWorld w'))"
proof -
  let ?si = "\<lparr>SnapshotIndex = 200, EntryPointIndex = 0, PruningIndex = 0\<rparr>"
  have pt: "SolidEntryPointCheckThresholdPast failingTraversalEnv = 50"
    by (simp add: failingTraversalEnv_def exampleEnv_def)
  have fit: "constantsFit failingTraversalEnv"
    by (simp add: constantsFit_def pt AdditionalPruningThreshold_def)
  have si: "GetSnapshotInfo exampleWorld = Some ?si"
    by (simp add: exampleWorld_def GetSnapshotInfo_def)
  have c: "clampTargetIndex failingTraversalEnv ?si 60 = 60"
    by (simp add: clampTargetIndex_def targetIndexMax_def pt AdditionalPruningThreshold_def)
  have pass: "checksPass failingTraversalEnv 60 ?si"
    by (simp add: checksPass_def c pt AdditionalPruningThreshold_def)
  have ok: "snd (walkerResult failingTraversalEnv (clampTargetIndex failingTraversalEnv ?si 60)
               neverAborted exampleWorld) = None"
    by (simp add: walkerResult_def failingTraversalEnv_def exampleEnv_def)
  have na: "\<forall>k. PruningIndex ?si < k \<and> k \<le> clampTargetIndex failingTraversalEnv ?si 60 \<longrightarrow>
              \<not> neverAborted k"
    by (simp add: neverAborted_def)
  have sk: "\<forall>k. PruningIndex ?si < k \<and> k \<le> clampTargetIndex failingTraversalEnv ?si 60 \<longrightarrow>
               (case GetCachedMilestoneOrNil k exampleWorld of
                  None \<Rightarrow> True
                | Some ms \<Rightarrow> \<forall>v. snd (TraverseParents failingTraversalEnv v ms) \<noteq> None)"
    by (simp add: GetCachedMilestoneOrNil_def exampleWorld_def failingTraversalEnv_def)
  have m: "GetCachedMilestoneOrNil 1 exampleWorld = None"
          "GetCachedMilestoneOrNil 2 exampleWorld = Some ''m2''"
    by (simp_all add: GetCachedMilestoneOrNil_def exampleWorld_def)
  note r = all_skipped_run_succeeds [OF fit si pass ok na sk, unfolded c]
  have e: "\<lparr>SnapshotIndex = 200, EntryPointIndex = 0, PruningIndex = 0\<rparr>\<lparr>EntryPointIndex := 60\<rparr> =
           \<lparr>SnapshotIndex = 200, EntryPointIndex = 60, PruningIndex = 0\<rparr>" by simp
  have ok': "snd (walkerResult failingTraversalEnv 60 neverAborted exampleWorld) = None"
    using ok unfolding c .
  from r [unfolded e] fit si pass c ok' m show ?thesis by blast
qed

end
